theory Spec2Isabelle
  imports Main "HOL-Library.Word"
begin

section \<open>The binding model of the generator (internal/generator/binding.go)\<close>

text \<open>
  Go strings are byte sequences; \<^typ>\<open>string\<close> is a list of 8-bit characters, so a
  string of the program is a \<^typ>\<open>string\<close> here, byte for byte.  The type aliases
  \<open>uid = uint64\<close> and \<open>id = uint32\<close> are words; Go's \<open>int\<close> is taken at its 64-bit
  width.
\<close>

type_synonym uid = "64 word"
type_synonym id = "32 word"
type_synonym go_int = "64 word"
type_synonym uint16 = "16 word"
type_synonym uint32 = "32 word"

subsection \<open>The string functions of the Go library that the file calls\<close>

text \<open>
  \<open>strings.ToLower\<close> lowers a string of ASCII bytes byte by byte (\<open>'A'..'Z'\<close> plus 32);
  a string with a byte from \<open>0x80\<close> up goes through the Unicode case tables, which are
  not part of this program: that path is the parameter \<open>U\<close> of every function that
  lowers a string, and every theorem holds for every \<open>U\<close>.  The evaluations on
  concrete inputs take the identity for \<open>U\<close>; their strings are ASCII, so \<open>U\<close> is
  never applied in them.
\<close>

type_synonym unicode_lower = "string \<Rightarrow> string"

definition isASCII :: "char \<Rightarrow> bool" where
  "isASCII c = (of_char c < (128::nat))"

definition lowerByte :: "char \<Rightarrow> char" where
  "lowerByte c =
     (if (65::nat) \<le> of_char c \<and> of_char c \<le> (90::nat)
      then char_of (of_char c + (32::nat)) else c)"

definition ToLower :: "unicode_lower \<Rightarrow> string \<Rightarrow> string" where
  "ToLower U s = (if list_all isASCII s then map lowerByte s else U s)"

text \<open>
  \<open>strings.TrimSpace\<close> removes the leading and trailing runes of \<open>unicode.IsSpace\<close>.
  \<open>spaceRunes\<close> are their UTF-8 encodings: tab, LF, VT, FF, CR, space, U+0085, U+00A0,
  U+1680, U+2000 to U+200A, U+2028, U+2029, U+202F, U+205F, U+3000.  Each is a complete
  encoding, so the string starts (ends) with a space rune exactly when it starts (ends)
  with one of these byte sequences.
\<close>

definition spaceRunes :: "string list" where
  "spaceRunes =
     [ [CHR 0x09], [CHR 0x0A], [CHR 0x0B], [CHR 0x0C], [CHR 0x0D], [CHR 0x20],
      [CHR 0xC2, CHR 0x85], [CHR 0xC2, CHR 0xA0],
      [CHR 0xE1, CHR 0x9A, CHR 0x80],
      [CHR 0xE2, CHR 0x80, CHR 0x80], [CHR 0xE2, CHR 0x80, CHR 0x81],
      [CHR 0xE2, CHR 0x80, CHR 0x82], [CHR 0xE2, CHR 0x80, CHR 0x83],
      [CHR 0xE2, CHR 0x80, CHR 0x84], [CHR 0xE2, CHR 0x80, CHR 0x85],
      [CHR 0xE2, CHR 0x80, CHR 0x86], [CHR 0xE2, CHR 0x80, CHR 0x87],
      [CHR 0xE2, CHR 0x80, CHR 0x88], [CHR 0xE2, CHR 0x80, CHR 0x89],
      [CHR 0xE2, CHR 0x80, CHR 0x8A],
      [CHR 0xE2, CHR 0x80, CHR 0xA8], [CHR 0xE2, CHR 0x80, CHR 0xA9],
      [CHR 0xE2, CHR 0x80, CHR 0xAF], [CHR 0xE2, CHR 0x81, CHR 0x9F],
      [CHR 0xE3, CHR 0x80, CHR 0x80]]"

definition HasPrefix :: "string \<Rightarrow> string \<Rightarrow> bool" where
  "HasPrefix s w = (take (length w) s = w)"

function trimLeft :: "string list \<Rightarrow> string \<Rightarrow> string" where
  "trimLeft ws s =
     (case find (HasPrefix s) ws of
        None \<Rightarrow> s
      | Some w \<Rightarrow> if w = [] then s else trimLeft ws (drop (length w) s))"
  by pat_completeness auto
termination
proof (relation "measure (\<lambda>(ws, s). length s)")
  show "wf (measure (\<lambda>(ws, s). length s))" by simp
next
  fix ws s w
  assume "find (HasPrefix s) ws = Some w" "w \<noteq> []"
  then have "HasPrefix s w" by (auto simp: find_Some_iff)
  then have "length w \<le> length s"
    by (metis HasPrefix_def length_take min.cobounded2 min.commute)
  with \<open>w \<noteq> []\<close> show "((ws, drop (length w) s), (ws, s)) \<in> measure (\<lambda>(ws, s). length s)"
    by (cases w) auto
qed

declare trimLeft.simps [simp del]

definition TrimSpace :: "string \<Rightarrow> string" where
  "TrimSpace s = rev (trimLeft (map rev spaceRunes) (rev (trimLeft spaceRunes s)))"

text \<open>
  \<open>strings.Split(s, sep)\<close> for a one-byte separator: the pieces between the separators,
  empty pieces included, one piece more than there are separators.
\<close>

fun Split :: "string \<Rightarrow> char \<Rightarrow> string list" where
  "Split [] sep = [] # []"
| "Split (c # s) sep =
     (if c = sep then [] # Split s sep
      else (case Split s sep of [] \<Rightarrow> [c] # [] | t # ts \<Rightarrow> (c # t) # ts))"

text \<open>
  \<open>strings.IndexRune(s, r)\<close> for a rune below \<open>0x80\<close>: the index of the first byte
  equal to it, \<open>None\<close> for the result \<open>-1\<close>.
\<close>

definition IndexRune :: "string \<Rightarrow> char \<Rightarrow> nat option" where
  "IndexRune s r = (if r \<in> set s then Some (length (takeWhile (\<lambda>c. c \<noteq> r) s)) else None)"

subsection \<open>Errors\<close>

text \<open>
  Every \<open>fmt.Errorf\<close> of the file is one constructor, carrying the values the message
  is formatted from.  \<open>PropertyError\<close> is the closure \<open>propertyError\<close> of
  \<open>createEntityFromAst\<close> (error, property name, entity name).  \<open>VTableOffsetPanic\<close>
  is the \<open>panic\<close> of \<open>FbvTableOffset\<close> (property name, property id).
\<close>

datatype error =
    UnnamedStruct
  | InvalidNumberOfNames string nat
  | PropertyError error string string
  | MultipleIdProperties string string string
  | EmptyNameInDb
  | DuplicateName
  | NoProperties string
  | IdFieldMissingAnnotate string
  | IdFieldMissing string
  | InvalidAnnotationValue string string
  | DuplicateAnnotation string
  | UnknownType string
  | InvalidDateType string
  | InvalidRelationType string
  | IndexAlreadyDefined
  | UnknownIndexType string
  | VTableOffsetPanic string id

subsection \<open>Data\<close>

record Annotation =
  Value :: string

record Relation =
  Target :: string

record Index =
  IndexId :: id
  IndexUid :: uid

text \<open>
  \<open>Property\<close>: the fields of the struct under their own names, except \<open>Id\<close> and \<open>Uid\<close>
  (\<open>PropId\<close>, \<open>PropUid\<close>).  A nil pointer is \<open>None\<close>; a nil map and an empty map
  behave alike in every read of the file, both are \<open>Map.empty\<close>.  The back pointer
  \<open>entity\<close> is read only for the entity's name in error messages, which the
  functions below receive as an argument.
\<close>

record Property =
  Name :: string
  ObName :: string
  PropId :: id
  PropUid :: uid
  Annotations :: "string \<rightharpoonup> Annotation"
  ObType :: string
  ObFlags :: "string list"
  GoType :: string
  FbType :: string
  Relation :: "Relation option"
  Index :: "Index option"

definition newProperty :: "string \<Rightarrow> Property" where
  "newProperty name =
     \<lparr>Name = name, ObName = [], PropId = 0, PropUid = 0, Annotations = Map.empty,
      ObType = [], ObFlags = [], GoType = [], FbType = [], Relation = None, Index = None\<rparr>"

text \<open>
  \<open>Entity\<close>: \<open>IdProperty\<close> is a pointer to one of the properties of \<open>Properties\<close>; it
  is the position of that property in the list, so that a write through either
  reference is one update.  \<open>modelinfo.IdUid\<close> is a string type of another package; no
  function here reads or writes it.
\<close>

record Entity =
  EntityName :: string
  EntityId :: id
  EntityUid :: uid
  Properties :: "Property list"
  IdProperty :: "nat option"
  LastPropertyId :: string

record Binding =
  Package :: string
  Entities :: "Entity list"
  currentEntityName :: string
  err :: "error option"

definition newBinding :: Binding where
  "newBinding = \<lparr>Package = [], Entities = [], currentEntityName = [], err = None\<rparr>"

subsection \<open>The syntax tree, as far as the file reads it\<close>

text \<open>
  Of an \<open>ast.Field\<close> the file reads the names, the raw tag literal (\<open>None\<close> for a nil
  \<open>Tag\<close>) and the type expression, the latter only through \<open>types.ExprString\<close>: \<open>Type\<close>
  is that rendered text.  A node is its kind and its child nodes.
\<close>

record field =
  Names :: "string list"
  Tag :: "string option"
  Type :: string

datatype kind =
    TypeSpec string
  | StructType "field list"
  | GenDecl
  | File string
  | OtherNode

datatype node = Node kind "node list"

text \<open>The generator's \<open>file\<close>: the parsed \<open>ast.File\<close> it holds, a node of kind \<open>File\<close>.\<close>

record srcfile =
  astFile :: node

subsection \<open>Annotation parser: \<open>setAnnotations\<close>\<close>

text \<open>Lines 254 to 271: one non-empty token to its name (not yet lowered) and value.\<close>

definition tagAnnotation :: "string \<Rightarrow> error + string \<times> Annotation" where
  "tagAnnotation tag0 =
     (case IndexRune tag0 (CHR '':'') of
        Some i \<Rightarrow>
          (let name = take i tag0; tag = drop (i + 1) tag0
           in if length tag > 1 \<and> tag ! 0 = tag ! (length tag - 1) \<and> tag ! 0 = CHR 0x22
              then Inr (name, \<lparr>Value = TrimSpace (drop 1 (take (length tag - 1) tag))\<rparr>)
              else Inl (InvalidAnnotationValue tag name))
      | None \<Rightarrow> Inr (tag0, \<lparr>Value = []\<rparr>))"

text \<open>The loop of lines 252 to 281 over the pieces of the split.\<close>

fun annotationsLoop ::
  "unicode_lower \<Rightarrow> (string \<rightharpoonup> Annotation) \<Rightarrow> string list \<Rightarrow> error + (string \<rightharpoonup> Annotation)"
where
  "annotationsLoop U anns [] = Inr anns"
| "annotationsLoop U anns (tag # tags) =
     (if length tag > 0
      then (case tagAnnotation tag of
              Inl e \<Rightarrow> Inl e
            | Inr (name0, value) \<Rightarrow>
                (let name = ToLower U name0
                 in if anns name \<noteq> None then Inl (DuplicateAnnotation name)
                    else annotationsLoop U (anns(name \<mapsto> value)) tags))
      else annotationsLoop U anns tags)"

definition setAnnotations :: "unicode_lower \<Rightarrow> Property \<Rightarrow> string \<Rightarrow> error + Property" where
  "setAnnotations U property tags0 =
     (let tags =
        (if length tags0 > 1 \<and> tags0 ! 0 = tags0 ! (length tags0 - 1) \<and>
            (tags0 ! 0 = CHR 0x60 \<or> tags0 ! 0 = CHR 0x22)
         then drop 1 (take (length tags0 - 1) tags0) else tags0)
      in if tags = [] then Inr property
         else (case annotationsLoop U Map.empty (Split tags (CHR '' '')) of
                 Inl e \<Rightarrow> Inl e
               | Inr anns \<Rightarrow> Inr (property\<lparr>Annotations := anns\<rparr>)))"

subsection \<open>Type resolver: \<open>setType\<close>\<close>

text \<open>The chain of lines 290 to 334: the logical and the physical type of a type text.\<close>

definition baseTypes :: "string \<Rightarrow> (string \<times> string) option" where
  "baseTypes ts =
     (if ts = ''string'' then Some (''String'', ''UOffsetT'')
      else if ts = ''int'' \<or> ts = ''int64'' then Some (''Long'', ''Int64'')
      else if ts = ''uint'' \<or> ts = ''uint64'' then Some (''Long'', ''Uint64'')
      else if ts = ''int32'' \<or> ts = ''rune'' then Some (''Int'', ''Int32'')
      else if ts = ''uint32'' then Some (''Int'', ''Uint32'')
      else if ts = ''int16'' then Some (''Short'', ''Int16'')
      else if ts = ''uint16'' then Some (''Short'', ''Uint16'')
      else if ts = ''int8'' then Some (''Byte'', ''Int8'')
      else if ts = ''uint8'' then Some (''Byte'', ''Uint8'')
      else if ts = ''byte'' then Some (''Byte'', ''Byte'')
      else if ts = ''[]byte'' then Some (''ByteVector'', ''UOffsetT'')
      else if ts = ''float64'' then Some (''Double'', ''Float64'')
      else if ts = ''float32'' then Some (''Float'', ''Float32'')
      else if ts = ''bool'' then Some (''Bool'', ''Bool'')
      else None)"

definition setType :: "Property \<Rightarrow> string \<Rightarrow> error + Property" where
  "setType property0 t =
     (let property1 = property0\<lparr>GoType := t\<rparr>; ts = GoType property1
      in case baseTypes ts of
           None \<Rightarrow> Inl (UnknownType ts)
         | Some (ob, fb) \<Rightarrow>
             (let property2 = property1\<lparr>ObType := ob, FbType := fb\<rparr>
              in case (if Annotations property2 ''date'' \<noteq> None
                       then (if ObType property2 \<noteq> ''Long''
                             then Inl (InvalidDateType (ObType property2))
                             else Inr (property2\<lparr>ObType := ''Date''\<rparr>))
                       else Inr property2) of
                   Inl e \<Rightarrow> Inl e
                 | Inr property3 \<Rightarrow>
                     (case Annotations property3 ''link'' of
                        None \<Rightarrow> Inr property3
                      | Some link \<Rightarrow>
                          if ObType property3 \<noteq> ''Long''
                          then Inl (InvalidRelationType (ObType property3))
                          else Inr (property3\<lparr>ObType := ''Relation'',
                                     Relation := Some \<lparr>Target = Value link\<rparr>\<rparr>))))"

subsection \<open>Flag deriver: \<open>addObFlag\<close>, \<open>setIndex\<close>, \<open>setObFlags\<close>\<close>

definition addObFlag :: "Property \<Rightarrow> string \<Rightarrow> Property" where
  "addObFlag property flag = property\<lparr>ObFlags := ObFlags property @ [flag]\<rparr>"

definition setIndex :: "Property \<Rightarrow> error + Property" where
  "setIndex property =
     (if Index property \<noteq> None then Inl IndexAlreadyDefined
      else Inr (property\<lparr>Index := Some \<lparr>IndexId = 0, IndexUid = 0\<rparr>\<rparr>))"

definition setObFlags :: "unicode_lower \<Rightarrow> Property \<Rightarrow> error + Property" where
  "setObFlags U property0 =
     (let property1 =
        (if Annotations property0 ''id'' \<noteq> None then addObFlag property0 ''ID'' else property0)
      in case (case Annotations property1 ''index'' of
                 None \<Rightarrow> Inr property1
               | Some index \<Rightarrow>
                   (let property2 = addObFlag property1 ''INDEXED'';
                        v = ToLower U (Value index)
                    in case (if v = [] then Inr property2
                             else if v = ''value'' then Inr (addObFlag property2 ''INDEX_VALUE'')
                             else if v = ''hash'' then Inr (addObFlag property2 ''INDEX_HASH'')
                             else if v = ''hash64'' then Inr (addObFlag property2 ''INDEX_HASH64'')
                             else Inl (UnknownIndexType (Value index))) of
                         Inl e \<Rightarrow> Inl e
                       | Inr property3 \<Rightarrow> setIndex property3)) of
           Inl e \<Rightarrow> Inl e
         | Inr property4 \<Rightarrow>
             (case (if Annotations property4 ''unique'' \<noteq> None
                    then setIndex (addObFlag property4 ''UNIQUE'') else Inr property4) of
                Inl e \<Rightarrow> Inl e
              | Inr property5 \<Rightarrow>
                  if Relation property5 \<noteq> None then setIndex property5 else Inr property5))"

subsection \<open>Entity builder: \<open>createEntityFromAst\<close>\<close>

text \<open>
  Lines 145 to 172, one field up to its flags: the property that goes on to the entity
  checks, \<open>None\<close> for the \<open>continue\<close> of a transient field.
\<close>

definition fieldProperty :: "unicode_lower \<Rightarrow> string \<Rightarrow> field \<Rightarrow> error + Property option" where
  "fieldProperty U entityName f =
     (if length (Names f) \<noteq> 1 then Inl (InvalidNumberOfNames entityName (length (Names f)))
      else
        (let property0 = newProperty (Names f ! 0)
         in case (case Tag f of
                    None \<Rightarrow> Inr property0
                  | Some tag \<Rightarrow> setAnnotations U property0 tag) of
              Inl e \<Rightarrow> Inl (PropertyError e (Name property0) entityName)
            | Inr property1 \<Rightarrow>
                if Annotations property1 ''transient'' \<noteq> None then Inr None
                else (case setType property1 (Type f) of
                        Inl e \<Rightarrow> Inl (PropertyError e (Name property1) entityName)
                      | Inr property2 \<Rightarrow>
                          (case setObFlags U property2 of
                             Inl e \<Rightarrow> Inl (PropertyError e (Name property2) entityName)
                           | Inr property3 \<Rightarrow> Inr (Some property3)))))"

text \<open>
  Lines 174 to 202, on the entity and the set \<open>propertiesByName\<close>.  Line 180 points
  \<open>IdProperty\<close> to the property that line 202 appends: its position is the current
  length of \<open>Properties\<close>.
\<close>

definition addProperty ::
  "unicode_lower \<Rightarrow> Entity \<times> string set \<Rightarrow> Property \<Rightarrow> error + Entity \<times> string set"
where
  "addProperty U st property0 =
     (case st of (entity0, propertiesByName) \<Rightarrow>
        (case (if Annotations property0 ''id'' \<noteq> None
               then (case IdProperty entity0 of
                       Some i \<Rightarrow>
                         Inl (MultipleIdProperties (EntityName entity0)
                                (Name (Properties entity0 ! i)) (Name property0))
                     | None \<Rightarrow> Inr (entity0\<lparr>IdProperty := Some (length (Properties entity0))\<rparr>))
               else Inr entity0) of
           Inl e \<Rightarrow> Inl e
         | Inr entity1 \<Rightarrow>
             (case (case Annotations property0 ''nameindb'' of
                      Some nameindb \<Rightarrow>
                        if length (Value nameindb) = 0
                        then Inl (PropertyError EmptyNameInDb (Name property0) (EntityName entity1))
                        else Inr (property0\<lparr>ObName := Value nameindb\<rparr>)
                    | None \<Rightarrow> Inr (property0\<lparr>ObName := Name property0\<rparr>)) of
                Inl e \<Rightarrow> Inl e
              | Inr property1 \<Rightarrow>
                  (let realObName = ToLower U (ObName property1)
                   in if realObName \<in> propertiesByName
                      then Inl (PropertyError DuplicateName (Name property1) (EntityName entity1))
                      else Inr (entity1\<lparr>Properties := Properties entity1 @ [property1]\<rparr>,
                                insert realObName propertiesByName)))))"

text \<open>The loop of lines 144 to 203.\<close>

fun fieldsLoop ::
  "unicode_lower \<Rightarrow> Entity \<times> string set \<Rightarrow> field list \<Rightarrow> error + Entity \<times> string set"
where
  "fieldsLoop U st [] = Inr st"
| "fieldsLoop U st (f # fs) =
     (case fieldProperty U (EntityName (fst st)) f of
        Inl e \<Rightarrow> Inl e
      | Inr None \<Rightarrow> fieldsLoop U st fs
      | Inr (Some property) \<Rightarrow>
          (case addProperty U st property of
             Inl e \<Rightarrow> Inl e
           | Inr st' \<Rightarrow> fieldsLoop U st' fs))"

text \<open>
  The loop of lines 212 to 223 over the positions of \<open>Properties\<close>; \<open>addObFlag\<close> on the
  adopted property is a write to the list.
\<close>

fun idByName :: "unicode_lower \<Rightarrow> Entity \<Rightarrow> nat list \<Rightarrow> error + Entity" where
  "idByName U entity [] = Inr entity"
| "idByName U entity (i # is) =
     (let property = Properties entity ! i
      in if ToLower U (Name property) = ''id'' \<and> ToLower U (GoType property) = ''uint64''
         then (if IdProperty entity = None
               then idByName U
                      (entity\<lparr>IdProperty := Some i,
                         Properties := (Properties entity)[i := addObFlag property ''ID'']\<rparr>) is
               else Inl (IdFieldMissingAnnotate (EntityName entity)))
         else idByName U entity is)"

definition newEntity :: "string \<Rightarrow> Entity" where
  "newEntity name =
     \<lparr>EntityName = name, EntityId = 0, EntityUid = 0, Properties = [], IdProperty = None,
      LastPropertyId = []\<rparr>"

definition createEntityFromAst :: "unicode_lower \<Rightarrow> Binding \<Rightarrow> node \<Rightarrow> error + Binding" where
  "createEntityFromAst U binding node =
     (let entity0 = newEntity (currentEntityName binding)
      in case (case node of
                 Node (StructType fieldList) _ \<Rightarrow> fieldsLoop U (entity0, {}) fieldList
               | _ \<Rightarrow> Inr (entity0, {})) of
           Inl e \<Rightarrow> Inl e
         | Inr (entity1, propertiesByName) \<Rightarrow>
             if length (Properties entity1) = 0 then Inl (NoProperties (EntityName entity1))
             else (case (if IdProperty entity1 = None
                         then (case idByName U entity1 [0..<length (Properties entity1)] of
                                 Inl e \<Rightarrow> Inl e
                               | Inr entity2 \<Rightarrow>
                                   if IdProperty entity2 = None
                                   then Inl (IdFieldMissing (EntityName entity2))
                                   else Inr entity2)
                         else Inr entity1) of
                     Inl e \<Rightarrow> Inl e
                   | Inr entity3 \<Rightarrow> Inr (binding\<lparr>Entities := Entities binding @ [entity3]\<rparr>)))"

subsection \<open>Tree walk: \<open>entityLoader\<close>, \<open>createFromAst\<close>\<close>

text \<open>The callback: the new binding and whether the walk descends into the node.\<close>

definition entityLoader :: "unicode_lower \<Rightarrow> Binding \<Rightarrow> node \<Rightarrow> Binding \<times> bool" where
  "entityLoader U binding node =
     (if err binding \<noteq> None then (binding, False)
      else (case node of
              Node (TypeSpec name) _ \<Rightarrow> (binding\<lparr>currentEntityName := name\<rparr>, True)
            | Node (StructType fieldList) _ \<Rightarrow>
                if currentEntityName binding = []
                then (binding\<lparr>err := Some UnnamedStruct\<rparr>, False)
                else (case createEntityFromAst U binding node of
                        Inl e \<Rightarrow> (binding\<lparr>err := Some e, currentEntityName := []\<rparr>, True)
                      | Inr binding' \<Rightarrow> (binding'\<lparr>err := None, currentEntityName := []\<rparr>, True))
            | Node GenDecl _ \<Rightarrow> (binding, True)
            | Node (File name) _ \<Rightarrow> (binding, True)
            | Node OtherNode _ \<Rightarrow> (binding, False)))"

text \<open>
  Modelled from the spec: the method \<open>walk\<close> of the generator's \<open>file\<close> type, which is
  not in binding.go.  Spec 4.5: a depth-first visit of the syntax tree that calls the
  callback on a node and goes into the node's children when the callback says so.
\<close>

fun walk :: "unicode_lower \<Rightarrow> node \<Rightarrow> Binding \<Rightarrow> Binding" where
  "walk U (Node k children) binding =
     (case entityLoader U binding (Node k children) of
        (binding', descend) \<Rightarrow> if descend then fold (walk U) children binding' else binding')"

text \<open>The package name \<open>f.f.Name.Name\<close> is the name of the \<open>File\<close> node.\<close>

definition createFromAst :: "unicode_lower \<Rightarrow> Binding \<Rightarrow> srcfile \<Rightarrow> Binding \<times> error option" where
  "createFromAst U binding0 f =
     (let binding1 =
        binding0\<lparr>Package := (case astFile f of Node (File name) _ \<Rightarrow> name | _ \<Rightarrow> [])\<rparr>;
          binding2 = walk U (astFile f) binding1
      in (binding2, err binding2))"

subsection \<open>Derived layout computations\<close>

text \<open>\<open>FbSlot\<close>: \<open>int(property.Id - 1)\<close>, the subtraction in \<open>uint32\<close>.\<close>

definition FbSlot :: "Property \<Rightarrow> go_int" where
  "FbSlot property = ucast (PropId property - 1)"

text \<open>
  \<open>FbvTableOffset\<close>: \<open>result = 4 + 2*uint32(property.FbSlot())\<close> in \<open>uint32\<close>; the panic
  when \<open>uint32(uint16(result)) != result\<close>, else \<open>uint16(result)\<close>.
\<close>

definition FbvTableOffset :: "Property \<Rightarrow> error + uint16" where
  "FbvTableOffset property =
     (let result = 4 + 2 * (ucast (FbSlot property) :: uint32)
      in if (ucast (ucast result :: uint16) :: uint32) \<noteq> result
         then Inl (VTableOffsetPanic (Name property) (PropId property))
         else Inr (ucast result))"

subsection \<open>Tag strings\<close>

text \<open>
  The tag between its delimiters, as lines 242 to 244 compute it.
\<close>

definition tagBody :: "string \<Rightarrow> string" where
  "tagBody tags0 =
     (if length tags0 > 1 \<and> tags0 ! 0 = tags0 ! (length tags0 - 1) \<and>
         (tags0 ! 0 = CHR 0x60 \<or> tags0 ! 0 = CHR 0x22)
      then drop 1 (take (length tags0 - 1) tags0) else tags0)"

text \<open>
  The tag strings that the statements about the annotation parser speak of.  A token
  is a name alone or a name, a colon and a value in double quotes.  A tag is a list of
  pieces with one space between any two of them; a piece is a token or empty, so that
  any number of spaces may stand before, between and after the tokens.
\<close>

fun tokenText :: "string \<times> string option \<Rightarrow> string" where
  "tokenText (name, None) = name"
| "tokenText (name, Some v) = name @ [CHR '':'', CHR 0x22] @ v @ [CHR 0x22]"

fun pieceText :: "(string \<times> string option) option \<Rightarrow> string" where
  "pieceText None = []"
| "pieceText (Some t) = tokenText t"

fun joinSpaces :: "string list \<Rightarrow> string" where
  "joinSpaces [] = []"
| "joinSpaces [s] = s"
| "joinSpaces (s # ss) = s @ CHR '' '' # joinSpaces ss"

subsection \<open>Storage name\<close>

text \<open>
  The name under which lines 183 to 191 store a property: the value of its \<open>nameindb\<close>
  annotation if it has one, its declared name otherwise.
\<close>

abbreviation storageName :: "Property \<Rightarrow> string" where
  "storageName p \<equiv> (case Annotations p ''nameindb'' of Some a \<Rightarrow> Value a | None \<Rightarrow> Name p)"

section \<open>Layout: slot and table offset\<close>

text \<open>The conversion of the slot back to \<open>uint32\<close> gives the subtraction again.\<close>

lemma FbSlot_roundtrip: "(ucast (FbSlot p) :: uint32) = PropId p - 1"
  by (simp add: FbSlot_def ucast_up_ucast_id is_up)

lemma uint16_roundtrip:
  "((ucast (ucast (r :: uint32) :: uint16) :: uint32) = r) = (unat r < 65536)"
proof -
  have "unat (ucast (ucast r :: uint16) :: uint32) = take_bit 16 (unat r)"
    by (simp add: unsigned_ucast_eq unsigned_take_bit_eq)
  moreover have "(take_bit 16 (unat r) = unat r) = (unat r < 2 ^ 16)"
    by (rule take_bit_nat_eq_self_iff)
  ultimately show ?thesis
    by (simp add: word_eq_iff_unsigned [where ?'a = nat])
qed

text \<open>The whole of \<open>FbvTableOffset\<close>, on the 32-bit sum.\<close>

lemma FbvTableOffset_eq:
  "FbvTableOffset p =
     (if unat (4 + 2 * (PropId p - 1)) < 65536 then Inr (ucast (4 + 2 * (PropId p - 1)))
      else Inl (VTableOffsetPanic (Name p) (PropId p)))"
  unfolding FbvTableOffset_def FbSlot_roundtrip Let_def
  by (simp only: uint16_roundtrip if_not_P if_P split: if_split) auto

lemma unat_offset_word: "unat (4 + 2 * s :: uint32) = (4 + 2 * unat s) mod 2 ^ 32"
proof -
  have "unat (4 + 2 * s) = (unat (4 :: uint32) + unat (2 * s)) mod 2 ^ 32"
    using unat_word_ariths(1) [of "4 :: uint32" "2 * s"] by simp
  also have "unat (2 * s) = (unat (2 :: uint32) * unat s) mod 2 ^ 32"
    using unat_word_ariths(2) [of "2 :: uint32" s] by simp
  finally show ?thesis by (simp add: mod_add_right_eq)
qed

lemma unat_pred:
  assumes "1 \<le> unat (x :: uint32)"
  shows "unat (x - 1) = unat x - 1"
  using assms by (metis unsigned_1 word_le_nat_alt unat_sub)

text \<open>
  What holds of the claim: the slot; the offset when it fits 16 bits; the panic when the
  offset does not fit 16 bits but the sum still fits 32 bits.
\<close>

lemma FbSlot_value:
  assumes "1 \<le> unat (PropId p)"
  shows "sint (FbSlot p) = int (unat (PropId p)) - 1"
proof -
  have "uint (PropId p - 1) < 2 ^ 32" using uint_lt2p [of "PropId p - 1"] by simp
  then have "uint (PropId p - 1) < 2 ^ 63" by simp
  moreover have "- (2 ^ 63) \<le> uint (PropId p - 1)"
  proof -
    have "- (2 ^ 63) \<le> (0 :: int)" by simp
    also have "0 \<le> uint (PropId p - 1)" by simp
    finally show ?thesis .
  qed
  ultimately have "signed_take_bit 63 (uint (PropId p - 1)) = uint (PropId p - 1)"
    by (rule signed_take_bit_int_eq_self [rotated])
  then have "sint (FbSlot p) = uint (PropId p - 1)"
    by (simp add: FbSlot_def signed_ucast_eq)
  also have "\<dots> = int (unat (PropId p - 1))" by simp
  finally show ?thesis using unat_pred [OF assms] assms by (simp only: of_nat_diff of_nat_1)
qed

lemma FbvTableOffset_fits:
  assumes "1 \<le> unat (PropId p)" "4 + 2 * (unat (PropId p) - 1) \<le> 65535"
  shows "\<exists>off. FbvTableOffset p = Inr off \<and> unat off = 4 + 2 * (unat (PropId p) - 1)"
proof -
  let ?n = "4 + 2 * (unat (PropId p) - 1)"
  have u: "unat (4 + 2 * (PropId p - 1)) = ?n"
    using assms(2) by (simp only: unat_offset_word unat_pred [OF assms(1)]) simp
  have "unat (ucast (4 + 2 * (PropId p - 1)) :: uint16) = take_bit 16 (unat (4 + 2 * (PropId p - 1)))"
    by (simp only: unsigned_ucast_eq) simp
  also have "\<dots> = ?n"
    using assms(2) by (simp only: u) (simp add: take_bit_nat_eq_self)
  finally have "unat (ucast (4 + 2 * (PropId p - 1)) :: uint16) = ?n" .
  moreover have "FbvTableOffset p = Inr (ucast (4 + 2 * (PropId p - 1)))"
    using assms(2) by (simp only: FbvTableOffset_eq u) simp
  ultimately show ?thesis by blast
qed

lemma FbvTableOffset_panics:
  assumes "1 \<le> unat (PropId p)" "65535 < 4 + 2 * (unat (PropId p) - 1)"
    "4 + 2 * (unat (PropId p) - 1) < 2 ^ 32"
  shows "FbvTableOffset p = Inl (VTableOffsetPanic (Name p) (PropId p))"
proof -
  have u: "unat (4 + 2 * (PropId p - 1)) = 4 + 2 * (unat (PropId p) - 1)"
    using assms(3) by (simp only: unat_offset_word unat_pred [OF assms(1)]) simp
  show ?thesis using assms(2) by (simp only: FbvTableOffset_eq u) simp
qed

text \<open>
  What does not: from the identifier \<open>2147483647\<close> on, the sum passes \<open>2^32\<close> and
  wraps; for the \<open>32768\<close> identifiers whose wrapped sum is below \<open>65536\<close> the call
  returns the wrapped sum.
\<close>

lemma FbvTableOffset_wraps:
  assumes "2 ^ 32 \<le> 4 + 2 * (unat (PropId p) - 1)"
    "4 + 2 * (unat (PropId p) - 1) < 2 ^ 32 + 65536"
  shows "\<exists>off. FbvTableOffset p = Inr off \<and>
               unat off = 4 + 2 * (unat (PropId p) - 1) - 2 ^ 32"
proof -
  let ?n = "4 + 2 * (unat (PropId p) - 1)"
  from assms(1) have one: "1 \<le> unat (PropId p)" by (cases "unat (PropId p)") auto
  have "?n mod 2 ^ 32 = ?n - 2 ^ 32"
    using assms by (simp add: mod_if)
  then have u: "unat (4 + 2 * (PropId p - 1)) = ?n - 2 ^ 32"
    by (simp only: unat_offset_word unat_pred [OF one])
  have "unat (ucast (4 + 2 * (PropId p - 1)) :: uint16) = take_bit 16 (unat (4 + 2 * (PropId p - 1)))"
    by (simp only: unsigned_ucast_eq) simp
  also have "\<dots> = ?n - 2 ^ 32"
    using assms(2) by (simp only: u) (simp add: take_bit_nat_eq_self)
  finally have "unat (ucast (4 + 2 * (PropId p - 1)) :: uint16) = ?n - 2 ^ 32" .
  moreover have "FbvTableOffset p = Inr (ucast (4 + 2 * (PropId p - 1)))"
    using assms(2) by (simp only: FbvTableOffset_eq u) simp
  ultimately show ?thesis by blast
qed

lemma FbvTableOffset_examples:
  "sint (FbSlot (newProperty ''P''\<lparr>PropId := 1\<rparr>)) = 0"
  "sint (FbSlot (newProperty ''P''\<lparr>PropId := 2\<rparr>)) = 1"
  "sint (FbSlot (newProperty ''P''\<lparr>PropId := 3\<rparr>)) = 2"
  "FbvTableOffset (newProperty ''P''\<lparr>PropId := 1\<rparr>) = Inr 4"
  "FbvTableOffset (newProperty ''P''\<lparr>PropId := 2\<rparr>) = Inr 6"
  "FbvTableOffset (newProperty ''P''\<lparr>PropId := 3\<rparr>) = Inr 8"
  "FbvTableOffset (newProperty ''P''\<lparr>PropId := 32766\<rparr>) = Inr 65534"
  "FbvTableOffset (newProperty ''P''\<lparr>PropId := 32767\<rparr>) = Inl (VTableOffsetPanic ''P'' 32767)"
  by (simp_all add: FbvTableOffset_def FbSlot_def newProperty_def)

text \<open>
  C1.  The claim: for a persisted identifier \<open>id \<ge> 1\<close>, \<open>FbSlot\<close> is \<open>id - 1\<close>,
  \<open>FbvTableOffset\<close> is \<open>4 + 2 * (id - 1)\<close> when that fits 16 bits, and the call aborts
  for every identifier with \<open>4 + 2 * (id - 1) > 65535\<close>.  The code computes the offset
  in \<open>uint32\<close>, where it wraps: at the identifier \<open>2147483647\<close> the sum
  \<open>4 + 2 * 2147483646 = 2^32\<close> is \<open>0\<close>, the 16-bit check passes and the call returns
  offset \<open>0\<close> instead of aborting.
\<close>

theorem FbvTableOffset_wraps_without_panic:
  "FbvTableOffset (newProperty ''P''\<lparr>PropId := 2147483647\<rparr>) = Inr 0"
  by (simp add: FbvTableOffset_def FbSlot_def newProperty_def)

section \<open>Type resolution under \<open>date\<close> and \<open>link\<close>\<close>

lemma setType_unknown: "baseTypes t = None \<Longrightarrow> setType p t = Inl (UnknownType t)"
  by (simp add: setType_def)

lemma setType_date_only:
  "baseTypes t = Some (ob, fb) \<Longrightarrow> Annotations p ''date'' \<noteq> None \<Longrightarrow>
   Annotations p ''link'' = None \<Longrightarrow>
   setType p t = (if ob = ''Long'' then Inr (p\<lparr>GoType := t, ObType := ''Date'', FbType := fb\<rparr>)
                  else Inl (InvalidDateType ob))"
  by (simp add: setType_def)

lemma setType_link_only:
  "baseTypes t = Some (ob, fb) \<Longrightarrow> Annotations p ''date'' = None \<Longrightarrow>
   Annotations p ''link'' = Some a \<Longrightarrow>
   setType p t = (if ob = ''Long''
                  then Inr (p\<lparr>GoType := t, ObType := ''Relation'', FbType := fb,
                              Relation := Some \<lparr>Target = Value a\<rparr>\<rparr>)
                  else Inl (InvalidRelationType ob))"
  by (simp add: setType_def)

text \<open>
  With both annotations the \<open>date\<close> step turns \<open>Long\<close> into \<open>Date\<close>, and the \<open>link\<close> step
  then finds \<open>Date\<close>, not \<open>Long\<close>.
\<close>

lemma setType_date_and_link:
  "baseTypes t = Some (ob, fb) \<Longrightarrow> Annotations p ''date'' \<noteq> None \<Longrightarrow>
   Annotations p ''link'' \<noteq> None \<Longrightarrow>
   setType p t = (if ob = ''Long'' then Inl (InvalidRelationType ''Date'')
                  else Inl (InvalidDateType ob))"
  by (auto simp add: setType_def)

text \<open>
  C3.  For a field with the \<open>date\<close> annotation (and no \<open>link\<close>), type resolution fails
  when the logical type of the base table is not \<open>Long\<close> (or the type text is unknown)
  and succeeds when it is \<open>Long\<close>, the logical type becoming \<open>Date\<close>; the same for
  \<open>link\<close> (and no \<open>date\<close>), the logical type becoming \<open>Relation\<close> and the relation's
  target the annotation's value; a field with both annotations always fails.
\<close>

theorem setType_date_link:
  "(Annotations p ''date'' \<noteq> None \<and> Annotations p ''link'' = None \<longrightarrow>
      setType p t =
        (case baseTypes t of
           None \<Rightarrow> Inl (UnknownType t)
         | Some (ob, fb) \<Rightarrow>
             if ob = ''Long'' then Inr (p\<lparr>GoType := t, ObType := ''Date'', FbType := fb\<rparr>)
             else Inl (InvalidDateType ob))) \<and>
   (Annotations p ''date'' = None \<and> Annotations p ''link'' = Some a \<longrightarrow>
      setType p t =
        (case baseTypes t of
           None \<Rightarrow> Inl (UnknownType t)
         | Some (ob, fb) \<Rightarrow>
             if ob = ''Long''
             then Inr (p\<lparr>GoType := t, ObType := ''Relation'', FbType := fb,
                         Relation := Some \<lparr>Target = Value a\<rparr>\<rparr>)
             else Inl (InvalidRelationType ob))) \<and>
   (Annotations p ''date'' \<noteq> None \<and> Annotations p ''link'' \<noteq> None \<longrightarrow> isl (setType p t))"
  by (cases "baseTypes t")
     (auto simp: setType_unknown setType_date_only setType_link_only setType_date_and_link)

theorem setType_date_link_witness:
  "setType (newProperty ''Created''\<lparr>Annotations := [''date'' \<mapsto> \<lparr>Value = []\<rparr>]\<rparr>) ''int64''
     = Inr (newProperty ''Created''\<lparr>Annotations := [''date'' \<mapsto> \<lparr>Value = []\<rparr>],
              GoType := ''int64'', ObType := ''Date'', FbType := ''Int64''\<rparr>) \<and>
   setType (newProperty ''Created''\<lparr>Annotations := [''date'' \<mapsto> \<lparr>Value = []\<rparr>]\<rparr>) ''string''
     = Inl (InvalidDateType ''String'') \<and>
   setType (newProperty ''Owner''\<lparr>Annotations := [''link'' \<mapsto> \<lparr>Value = ''User''\<rparr>]\<rparr>) ''uint64''
     = Inr (newProperty ''Owner''\<lparr>Annotations := [''link'' \<mapsto> \<lparr>Value = ''User''\<rparr>],
              GoType := ''uint64'', ObType := ''Relation'', FbType := ''Uint64'',
              Relation := Some \<lparr>Target = ''User''\<rparr>\<rparr>) \<and>
   setType (newProperty ''Owner''\<lparr>Annotations := [''link'' \<mapsto> \<lparr>Value = ''User''\<rparr>]\<rparr>) ''int32''
     = Inl (InvalidRelationType ''Int'') \<and>
   isl (setType (newProperty ''Both''\<lparr>Annotations :=
          [''date'' \<mapsto> \<lparr>Value = []\<rparr>, ''link'' \<mapsto> \<lparr>Value = ''User''\<rparr>]\<rparr>) ''int64'')"
  using
    setType_date_link [of "newProperty ''Created''\<lparr>Annotations := [''date'' \<mapsto> \<lparr>Value = []\<rparr>]\<rparr>"
      "''int64''"]
    setType_date_link [of "newProperty ''Created''\<lparr>Annotations := [''date'' \<mapsto> \<lparr>Value = []\<rparr>]\<rparr>"
      "''string''"]
    setType_date_link [of "newProperty ''Owner''\<lparr>Annotations := [''link'' \<mapsto> \<lparr>Value = ''User''\<rparr>]\<rparr>"
      "''uint64''" "\<lparr>Value = ''User''\<rparr>"]
    setType_date_link [of "newProperty ''Owner''\<lparr>Annotations := [''link'' \<mapsto> \<lparr>Value = ''User''\<rparr>]\<rparr>"
      "''int32''" "\<lparr>Value = ''User''\<rparr>"]
    setType_date_link [of "newProperty ''Both''\<lparr>Annotations :=
      [''date'' \<mapsto> \<lparr>Value = []\<rparr>, ''link'' \<mapsto> \<lparr>Value = ''User''\<rparr>]\<rparr>" "''int64''"]
  by (simp add: newProperty_def baseTypes_def)

section \<open>Flag derivation\<close>

text \<open>Lowering of the ASCII strings that the statements below evaluate.\<close>

lemma ToLower_evaluated:
  "ToLower U [] = []"
  "ToLower U ''value'' = ''value''"
  "ToLower U ''hash'' = ''hash''"
  "ToLower U ''hash64'' = ''hash64''"
  "ToLower U ''HASH'' = ''hash''"
  "ToLower U ''Value'' = ''value''"
  "ToLower U ''btree'' = ''btree''"
  by code_simp+

text \<open>The whole of \<open>setObFlags\<close> on a property with, and without, an \<open>index\<close> annotation.\<close>

lemma setObFlags_with_index:
  assumes "Annotations p ''index'' = Some a"
  shows "setObFlags U p =
     (let v = ToLower U (Value a) in
      if v \<noteq> [] \<and> v \<noteq> ''value'' \<and> v \<noteq> ''hash'' \<and> v \<noteq> ''hash64''
      then Inl (UnknownIndexType (Value a))
      else if Index p \<noteq> None \<or> Annotations p ''unique'' \<noteq> None \<or> Relation p \<noteq> None
      then Inl IndexAlreadyDefined
      else Inr (p\<lparr>ObFlags := ObFlags p @ (if Annotations p ''id'' \<noteq> None then [''ID''] else [])
                      @ [''INDEXED'']
                      @ (if v = [] then [] else if v = ''value'' then [''INDEX_VALUE'']
                         else if v = ''hash'' then [''INDEX_HASH''] else [''INDEX_HASH64'']),
                  Index := Some \<lparr>IndexId = 0, IndexUid = 0\<rparr>\<rparr>))"
  using assms by (auto simp: setObFlags_def setIndex_def addObFlag_def Let_def)

lemma setObFlags_without_index:
  assumes "Annotations p ''index'' = None"
  shows "setObFlags U p =
     (if Annotations p ''unique'' \<noteq> None
      then (if Index p \<noteq> None \<or> Relation p \<noteq> None then Inl IndexAlreadyDefined
            else Inr (p\<lparr>ObFlags := ObFlags p
                            @ (if Annotations p ''id'' \<noteq> None then [''ID''] else [])
                            @ [''UNIQUE''],
                        Index := Some \<lparr>IndexId = 0, IndexUid = 0\<rparr>\<rparr>))
      else if Relation p \<noteq> None
      then (if Index p \<noteq> None then Inl IndexAlreadyDefined
            else Inr (p\<lparr>ObFlags := ObFlags p
                            @ (if Annotations p ''id'' \<noteq> None then [''ID''] else []),
                        Index := Some \<lparr>IndexId = 0, IndexUid = 0\<rparr>\<rparr>))
      else Inr (p\<lparr>ObFlags := ObFlags p
                      @ (if Annotations p ''id'' \<noteq> None then [''ID''] else [])\<rparr>))"
  using assms by (auto simp: setObFlags_def setIndex_def addObFlag_def Let_def)

subsection \<open>One index per property\<close>

text \<open>
  C4 as stated fails: a property whose only index condition is an \<open>index\<close> annotation
  with the value \<open>foo\<close> (no \<open>unique\<close>, no relation) does not get an index, flag
  derivation fails on the value; and with \<open>unique\<close> added the error is still the unknown
  index type, not "index is already defined".
\<close>

theorem setObFlags_single_condition_fails:
  "setObFlags id (newProperty ''A''\<lparr>Annotations := [''index'' \<mapsto> \<lparr>Value = ''foo''\<rparr>]\<rparr>)
     = Inl (UnknownIndexType ''foo'') \<and>
   setObFlags id (newProperty ''A''\<lparr>Annotations :=
       [''index'' \<mapsto> \<lparr>Value = ''foo''\<rparr>, ''unique'' \<mapsto> \<lparr>Value = []\<rparr>]\<rparr>)
     = Inl (UnknownIndexType ''foo'')"
proof -
  have "ToLower id ''foo'' = ''foo''" by code_simp
  then show ?thesis by (simp add: setObFlags_with_index newProperty_def)
qed

text \<open>
  C4, amended.  For every property that enters flag derivation without an index (as
  every property of an entity build does) and whose \<open>index\<close> annotation, if it has one,
  carries a known value (empty, \<open>value\<close>, \<open>hash\<close>, \<open>hash64\<close>, in any letter case): if
  exactly one of the conditions (\<open>index\<close> annotation, \<open>unique\<close> annotation, relation) holds,
  flag derivation succeeds and the property has an index; if two or more hold, it fails
  with "index is already defined"; if none holds, it succeeds without an index.
\<close>

theorem setObFlags_index_allocation:
  assumes "Index p = None"
    and "\<forall>a. Annotations p ''index'' = Some a \<longrightarrow>
           ToLower U (Value a) \<in> {[], ''value'', ''hash'', ''hash64''}"
  shows "(let n = (if Annotations p ''index'' \<noteq> None then 1 else 0)
                + (if Annotations p ''unique'' \<noteq> None then 1 else 0)
                + (if Relation p \<noteq> None then 1 else (0::nat))
          in (n = 0 \<longrightarrow> (\<exists>p'. setObFlags U p = Inr p' \<and> Index p' = None)) \<and>
             (n = 1 \<longrightarrow> (\<exists>p'. setObFlags U p = Inr p' \<and> Index p' \<noteq> None)) \<and>
             (2 \<le> n \<longrightarrow> setObFlags U p = Inl IndexAlreadyDefined))"
proof (cases "Annotations p ''index''")
  case None
  then show ?thesis using assms(1) by (simp add: setObFlags_without_index)
next
  case (Some a)
  with assms(2) have "ToLower U (Value a) \<in> {[], ''value'', ''hash'', ''hash64''}" by simp
  then show ?thesis using assms(1) Some
    by (auto simp: setObFlags_with_index Let_def)
qed

theorem setObFlags_index_allocation_witness:
  "(\<exists>p'. setObFlags id (newProperty ''A''\<lparr>Annotations := [''index'' \<mapsto> \<lparr>Value = ''hash''\<rparr>]\<rparr>)
            = Inr p' \<and> Index p' \<noteq> None) \<and>
   (\<exists>p'. setObFlags id (newProperty ''A''\<lparr>Annotations := [''unique'' \<mapsto> \<lparr>Value = []\<rparr>]\<rparr>)
            = Inr p' \<and> Index p' \<noteq> None) \<and>
   (\<exists>p'. setObFlags id (newProperty ''A''\<lparr>Relation := Some \<lparr>Target = ''User''\<rparr>\<rparr>)
            = Inr p' \<and> Index p' \<noteq> None) \<and>
   setObFlags id (newProperty ''A''\<lparr>Annotations :=
       [''index'' \<mapsto> \<lparr>Value = ''hash''\<rparr>, ''unique'' \<mapsto> \<lparr>Value = []\<rparr>]\<rparr>)
     = Inl IndexAlreadyDefined \<and>
   setObFlags id (newProperty ''A''\<lparr>Annotations := [''unique'' \<mapsto> \<lparr>Value = []\<rparr>],
       Relation := Some \<lparr>Target = ''User''\<rparr>\<rparr>)
     = Inl IndexAlreadyDefined \<and>
   (\<exists>p'. setObFlags id (newProperty ''A'') = Inr p' \<and> Index p' = None)"
  using
    setObFlags_index_allocation
      [of "newProperty ''A''\<lparr>Annotations := [''index'' \<mapsto> \<lparr>Value = ''hash''\<rparr>]\<rparr>" id]
    setObFlags_index_allocation
      [of "newProperty ''A''\<lparr>Annotations := [''unique'' \<mapsto> \<lparr>Value = []\<rparr>]\<rparr>" id]
    setObFlags_index_allocation
      [of "newProperty ''A''\<lparr>Relation := Some \<lparr>Target = ''User''\<rparr>\<rparr>" id]
    setObFlags_index_allocation
      [of "newProperty ''A''\<lparr>Annotations :=
             [''index'' \<mapsto> \<lparr>Value = ''hash''\<rparr>, ''unique'' \<mapsto> \<lparr>Value = []\<rparr>]\<rparr>" id]
    setObFlags_index_allocation
      [of "newProperty ''A''\<lparr>Annotations := [''unique'' \<mapsto> \<lparr>Value = []\<rparr>],
             Relation := Some \<lparr>Target = ''User''\<rparr>\<rparr>" id]
    setObFlags_index_allocation [of "newProperty ''A''" id]
  by (simp add: newProperty_def ToLower_evaluated)

subsection \<open>The sub-flag of an \<open>index\<close> annotation\<close>

text \<open>
  C5 as stated fails: the value \<open>HASH\<close> is none of the four listed values, yet flag
  derivation does not fail on it; line 378 lowers the value before the switch, and the
  flags are \<open>INDEXED\<close>, \<open>INDEX_HASH\<close>.
\<close>

theorem setObFlags_index_value_any_case:
  "setObFlags id (newProperty ''A''\<lparr>Annotations := [''index'' \<mapsto> \<lparr>Value = ''HASH''\<rparr>]\<rparr>)
     = Inr (newProperty ''A''\<lparr>Annotations := [''index'' \<mapsto> \<lparr>Value = ''HASH''\<rparr>],
              ObFlags := [''INDEXED'', ''INDEX_HASH''],
              Index := Some \<lparr>IndexId = 0, IndexUid = 0\<rparr>\<rparr>)"
  by (simp add: setObFlags_with_index newProperty_def ToLower_evaluated)

text \<open>
  C5, amended.  For every property with an \<open>index\<close> annotation, with \<open>v\<close> the lowered
  annotation value: if \<open>v\<close> is none of the empty string, \<open>value\<close>, \<open>hash\<close>, \<open>hash64\<close>,
  flag derivation fails with the unknown-index-type error (carrying the value as
  written); otherwise it appends \<open>INDEXED\<close> (after \<open>ID\<close>, if the property has the \<open>id\<close>
  annotation) and then nothing for the empty string, \<open>INDEX_VALUE\<close> for \<open>value\<close>,
  \<open>INDEX_HASH\<close> for \<open>hash\<close>, \<open>INDEX_HASH64\<close> for \<open>hash64\<close>, and allocates the index;
  the only other outcome is "index is already defined", when the property already has
  an index, a \<open>unique\<close> annotation or a relation.
\<close>

theorem setObFlags_index_subflag:
  assumes "Annotations p ''index'' = Some a"
  shows "setObFlags U p =
     (let v = ToLower U (Value a) in
      if v \<noteq> [] \<and> v \<noteq> ''value'' \<and> v \<noteq> ''hash'' \<and> v \<noteq> ''hash64''
      then Inl (UnknownIndexType (Value a))
      else if Index p \<noteq> None \<or> Annotations p ''unique'' \<noteq> None \<or> Relation p \<noteq> None
      then Inl IndexAlreadyDefined
      else Inr (p\<lparr>ObFlags := ObFlags p @ (if Annotations p ''id'' \<noteq> None then [''ID''] else [])
                      @ [''INDEXED'']
                      @ (if v = [] then [] else if v = ''value'' then [''INDEX_VALUE'']
                         else if v = ''hash'' then [''INDEX_HASH''] else [''INDEX_HASH64'']),
                  Index := Some \<lparr>IndexId = 0, IndexUid = 0\<rparr>\<rparr>))"
  using assms by (rule setObFlags_with_index)

theorem setObFlags_index_subflag_witness:
  "setObFlags id (newProperty ''A''\<lparr>Annotations := [''index'' \<mapsto> \<lparr>Value = []\<rparr>]\<rparr>)
     = Inr (newProperty ''A''\<lparr>Annotations := [''index'' \<mapsto> \<lparr>Value = []\<rparr>],
              ObFlags := [''INDEXED''], Index := Some \<lparr>IndexId = 0, IndexUid = 0\<rparr>\<rparr>) \<and>
   setObFlags id (newProperty ''A''\<lparr>Annotations := [''index'' \<mapsto> \<lparr>Value = ''Value''\<rparr>]\<rparr>)
     = Inr (newProperty ''A''\<lparr>Annotations := [''index'' \<mapsto> \<lparr>Value = ''Value''\<rparr>],
              ObFlags := [''INDEXED'', ''INDEX_VALUE''],
              Index := Some \<lparr>IndexId = 0, IndexUid = 0\<rparr>\<rparr>) \<and>
   setObFlags id (newProperty ''A''\<lparr>Annotations := [''index'' \<mapsto> \<lparr>Value = ''hash''\<rparr>]\<rparr>)
     = Inr (newProperty ''A''\<lparr>Annotations := [''index'' \<mapsto> \<lparr>Value = ''hash''\<rparr>],
              ObFlags := [''INDEXED'', ''INDEX_HASH''],
              Index := Some \<lparr>IndexId = 0, IndexUid = 0\<rparr>\<rparr>) \<and>
   setObFlags id (newProperty ''A''\<lparr>Annotations := [''index'' \<mapsto> \<lparr>Value = ''hash64''\<rparr>]\<rparr>)
     = Inr (newProperty ''A''\<lparr>Annotations := [''index'' \<mapsto> \<lparr>Value = ''hash64''\<rparr>],
              ObFlags := [''INDEXED'', ''INDEX_HASH64''],
              Index := Some \<lparr>IndexId = 0, IndexUid = 0\<rparr>\<rparr>) \<and>
   setObFlags id (newProperty ''A''\<lparr>Annotations := [''index'' \<mapsto> \<lparr>Value = ''btree''\<rparr>]\<rparr>)
     = Inl (UnknownIndexType ''btree'')"
  using
    setObFlags_index_subflag
      [of "newProperty ''A''\<lparr>Annotations := [''index'' \<mapsto> \<lparr>Value = []\<rparr>]\<rparr>"
        "\<lparr>Value = []\<rparr>" id]
    setObFlags_index_subflag
      [of "newProperty ''A''\<lparr>Annotations := [''index'' \<mapsto> \<lparr>Value = ''Value''\<rparr>]\<rparr>"
        "\<lparr>Value = ''Value''\<rparr>" id]
    setObFlags_index_subflag
      [of "newProperty ''A''\<lparr>Annotations := [''index'' \<mapsto> \<lparr>Value = ''hash''\<rparr>]\<rparr>"
        "\<lparr>Value = ''hash''\<rparr>" id]
    setObFlags_index_subflag
      [of "newProperty ''A''\<lparr>Annotations := [''index'' \<mapsto> \<lparr>Value = ''hash64''\<rparr>]\<rparr>"
        "\<lparr>Value = ''hash64''\<rparr>" id]
    setObFlags_index_subflag
      [of "newProperty ''A''\<lparr>Annotations := [''index'' \<mapsto> \<lparr>Value = ''btree''\<rparr>]\<rparr>"
        "\<lparr>Value = ''btree''\<rparr>" id]
  by (simp add: newProperty_def ToLower_evaluated)

section \<open>Annotation parsing\<close>

lemma Split_not_Nil: "Split s sep \<noteq> []"
  by (induction s) (auto split: list.splits)

lemma Split_no_sep: "sep \<notin> set s \<Longrightarrow> Split s sep = [s]"
  by (induction s) auto

lemma Split_append_sep: "sep \<notin> set s \<Longrightarrow> Split (s @ sep # r) sep = s # Split r sep"
  by (induction s) (auto split: list.splits)

lemma IndexRune_absent: "r \<notin> set s \<Longrightarrow> IndexRune s r = None"
  by (simp add: IndexRune_def)

lemma IndexRune_first: "r \<notin> set s \<Longrightarrow> IndexRune (s @ r # t) r = Some (length s)"
proof -
  assume "r \<notin> set s"
  then have "takeWhile (\<lambda>c. c \<noteq> r) (s @ r # t) = s"
    by (induction s) auto
  then show ?thesis by (simp add: IndexRune_def)
qed

lemma tagAnnotation_bare:
  "CHR '':'' \<notin> set n \<Longrightarrow> tagAnnotation (tokenText (n, None)) = Inr (n, \<lparr>Value = []\<rparr>)"
  by (simp add: tagAnnotation_def IndexRune_absent)

lemma tagAnnotation_valued:
  assumes "CHR '':'' \<notin> set n"
  shows "tagAnnotation (tokenText (n, Some v)) = Inr (n, \<lparr>Value = TrimSpace v\<rparr>)"
proof -
  have "IndexRune (n @ CHR '':'' # CHR 0x22 # v @ [CHR 0x22]) (CHR '':'') = Some (length n)"
    using assms by (rule IndexRune_first)
  then show ?thesis
    by (simp add: tagAnnotation_def Let_def nth_append)
qed

lemma tagAnnotation_token:
  "CHR '':'' \<notin> set (fst t) \<Longrightarrow>
   tagAnnotation (tokenText t) = Inr (fst t, \<lparr>Value = (case snd t of None \<Rightarrow> [] | Some s \<Rightarrow> TrimSpace s)\<rparr>)"
  by (cases t; cases "snd t") (auto simp: tagAnnotation_bare tagAnnotation_valued simp del: tokenText.simps)

lemma tokenText_not_Nil: "(snd t = None \<longrightarrow> fst t \<noteq> []) \<Longrightarrow> tokenText t \<noteq> []"
  by (cases t; cases "snd t") auto

lemma annotationsLoop_tokens:
  assumes "\<forall>t\<in>set toks. CHR '':'' \<notin> set (fst t) \<and> (snd t = None \<longrightarrow> fst t \<noteq> [])"
    and "distinct (map (\<lambda>t. ToLower U (fst t)) toks)"
    and "\<forall>t\<in>set toks. anns (ToLower U (fst t)) = None"
  shows "annotationsLoop U anns (map tokenText toks) =
         Inr (anns ++ map_of (map (\<lambda>t. (ToLower U (fst t), \<lparr>Value = (case snd t of None \<Rightarrow> [] | Some s \<Rightarrow> TrimSpace s)\<rparr>)) toks))"
  using assms
proof (induction toks arbitrary: anns)
  case Nil
  then show ?case by simp
next
  case (Cons t toks)
  let ?k = "ToLower U (fst t)"
  let ?v = "\<lparr>Value = (case snd t of None \<Rightarrow> [] | Some s \<Rightarrow> TrimSpace s)\<rparr>"
  let ?rest = "map_of (map (\<lambda>t. (ToLower U (fst t), \<lparr>Value = (case snd t of None \<Rightarrow> [] | Some s \<Rightarrow> TrimSpace s)\<rparr>)) toks)"
  have ne: "tokenText t \<noteq> []" using Cons.prems(1) by (simp add: tokenText_not_Nil)
  have ta: "tagAnnotation (tokenText t) = Inr (fst t, ?v)"
    using Cons.prems(1) by (simp add: tagAnnotation_token)
  have free: "anns ?k = None" using Cons.prems(3) by simp
  have knot: "?k \<notin> dom ?rest"
    using Cons.prems(2) by (auto simp: dom_map_of_conv_image_fst image_iff)
  have step: "annotationsLoop U anns (map tokenText (t # toks)) =
      annotationsLoop U (anns(?k \<mapsto> ?v)) (map tokenText toks)"
    using ne ta free by (simp add: Let_def)
  have ih: "annotationsLoop U (anns(?k \<mapsto> ?v)) (map tokenText toks) = Inr (anns(?k \<mapsto> ?v) ++ ?rest)"
  proof (rule Cons.IH)
    show "\<forall>t\<in>set toks. CHR '':'' \<notin> set (fst t) \<and> (snd t = None \<longrightarrow> fst t \<noteq> [])"
      using Cons.prems(1) by simp
    show "distinct (map (\<lambda>t. ToLower U (fst t)) toks)" using Cons.prems(2) by simp
    show "\<forall>t\<in>set toks. (anns(?k \<mapsto> ?v)) (ToLower U (fst t)) = None"
      using Cons.prems(2,3) by (auto simp: image_iff)
  qed
  have eq: "anns(?k \<mapsto> ?v) ++ ?rest =
      anns ++ map_of (map (\<lambda>t. (ToLower U (fst t), \<lparr>Value = (case snd t of None \<Rightarrow> [] | Some s \<Rightarrow> TrimSpace s)\<rparr>)) (t # toks))"
    using knot by (simp add: map_add_upd_left)
  show ?case by (simp only: step ih eq)
qed

lemma setAnnotations_body:
  "setAnnotations U p t =
     (if tagBody t = [] then Inr p
      else (case annotationsLoop U Map.empty (Split (tagBody t) (CHR '' '')) of
              Inl e \<Rightarrow> Inl e
            | Inr anns \<Rightarrow> Inr (p\<lparr>Annotations := anns\<rparr>)))"
  unfolding setAnnotations_def tagBody_def Let_def ..

lemma Split_joinSpaces:
  assumes "\<forall>s\<in>set ss. CHR '' '' \<notin> set s" "ss \<noteq> []"
  shows "Split (joinSpaces ss) (CHR '' '') = ss"
  using assms
proof (induction ss rule: joinSpaces.induct)
  case 1
  then show ?case by simp
next
  case (2 s)
  then show ?case by (simp add: Split_no_sep)
next
  case (3 s u ss)
  then show ?case by (simp add: Split_append_sep)
qed

lemma annotationsLoop_cong_tail:
  assumes "\<And>anns. annotationsLoop U anns tags = annotationsLoop U anns tags'"
  shows "annotationsLoop U anns (tag # tags) = annotationsLoop U anns (tag # tags')"
proof (cases "tagAnnotation tag")
  case (Inl e)
  then show ?thesis using assms by simp
next
  case (Inr nv)
  then show ?thesis using assms by (cases nv) (simp add: Let_def)
qed

lemma annotationsLoop_pieces:
  "annotationsLoop U anns (map pieceText ps) =
   annotationsLoop U anns (map tokenText (map the (filter (\<lambda>x. x \<noteq> None) ps)))"
proof (induction ps arbitrary: anns)
  case Nil
  then show ?case by simp
next
  case (Cons x ps)
  show ?case
  proof (cases x)
    case None
    then show ?thesis using Cons.IH by simp
  next
    case (Some t)
    have "annotationsLoop U anns (tokenText t # map pieceText ps) =
          annotationsLoop U anns
            (tokenText t # map tokenText (map the (filter (\<lambda>x. x \<noteq> None) ps)))"
      by (rule annotationsLoop_cong_tail) (rule Cons.IH)
    with Some show ?thesis by simp
  qed
qed

subsection \<open>What \<open>TrimSpace\<close> removes\<close>

lemma HasPrefix_length: "HasPrefix s w \<Longrightarrow> length w \<le> length s"
  by (metis HasPrefix_def length_take min.cobounded2 min.commute)

lemma trimLeft_decomp: "\<exists>ws. set ws \<subseteq> set W \<and> s = concat ws @ trimLeft W s"
proof (induction W s rule: trimLeft.induct)
  case (1 W s)
  show ?case
  proof (cases "find (HasPrefix s) W")
    case None
    then have "trimLeft W s = s" by (subst trimLeft.simps) simp
    then have "set [] \<subseteq> set W \<and> s = concat [] @ trimLeft W s" by simp
    then show ?thesis by blast
  next
    case (Some w)
    show ?thesis
    proof (cases "w = []")
      case True
      with Some have "trimLeft W s = s" by (subst trimLeft.simps) simp
      then have "set [] \<subseteq> set W \<and> s = concat [] @ trimLeft W s" by simp
      then show ?thesis by blast
    next
      case False
      from Some have w: "w \<in> set W" "HasPrefix s w" by (auto simp: find_Some_iff)
      from "1.IH" [OF Some False] obtain ws where
        ws: "set ws \<subseteq> set W" "drop (length w) s = concat ws @ trimLeft W (drop (length w) s)"
        by blast
      have t: "trimLeft W s = trimLeft W (drop (length w) s)"
        using Some False by (subst trimLeft.simps) simp
      have "s = w @ drop (length w) s"
        using w(2) by (metis HasPrefix_def append_take_drop_id)
      with ws(2) t have "s = concat (w # ws) @ trimLeft W s" by simp
      moreover have "set (w # ws) \<subseteq> set W" using w(1) ws(1) by simp
      ultimately show ?thesis by blast
    qed
  qed
qed

lemma trimLeft_no_prefix:
  assumes "[] \<notin> set W" "w \<in> set W"
  shows "\<not> HasPrefix (trimLeft W s) w"
  using assms
proof (induction W s rule: trimLeft.induct)
  case (1 W s)
  show ?case
  proof (cases "find (HasPrefix s) W")
    case None
    then have "trimLeft W s = s" by (subst trimLeft.simps) simp
    with None "1.prems" show ?thesis by (auto simp: find_None_iff)
  next
    case (Some w0)
    then have "w0 \<in> set W" by (auto simp: find_Some_iff)
    with "1.prems"(1) have ne: "w0 \<noteq> []" by auto
    have "trimLeft W s = trimLeft W (drop (length w0) s)"
      using Some ne by (subst trimLeft.simps) simp
    with "1.IH" [OF Some ne "1.prems"] show ?thesis by simp
  qed
qed

lemma spaceRunes_not_Nil: "[] \<notin> set spaceRunes"
  by (simp add: spaceRunes_def)

lemma TrimSpace_trims:
  "\<exists>l r. set l \<subseteq> set spaceRunes \<and> set r \<subseteq> set spaceRunes \<and>
         s = concat l @ TrimSpace s @ concat r \<and>
         (\<forall>w\<in>set spaceRunes. \<not> HasPrefix (TrimSpace s) w \<and>
                               \<not> HasPrefix (rev (TrimSpace s)) (rev w))"
proof -
  let ?t1 = "trimLeft spaceRunes s"
  let ?t2 = "trimLeft (map rev spaceRunes) (rev ?t1)"
  have ts: "TrimSpace s = rev ?t2" by (simp add: TrimSpace_def)
  from trimLeft_decomp [of spaceRunes s] obtain l where
    l: "set l \<subseteq> set spaceRunes" "s = concat l @ ?t1" by blast
  from trimLeft_decomp [of "map rev spaceRunes" "rev ?t1"] obtain r' where
    r': "set r' \<subseteq> set (map rev spaceRunes)" "rev ?t1 = concat r' @ ?t2" by blast
  let ?r = "map rev (rev r')"
  have rset: "set ?r \<subseteq> set spaceRunes" using r'(1) by auto
  have "rev (rev ?t1) = rev (concat r' @ ?t2)" using r'(2) by simp
  then have t1: "?t1 = TrimSpace s @ concat ?r"
    by (simp add: ts rev_concat rev_map)
  have nosuf: "\<not> HasPrefix (rev (TrimSpace s)) (rev w)" if "w \<in> set spaceRunes" for w
  proof -
    have "[] \<notin> set (map rev spaceRunes)" using spaceRunes_not_Nil by auto
    moreover have "rev w \<in> set (map rev spaceRunes)" using that by simp
    ultimately have "\<not> HasPrefix ?t2 (rev w)" by (rule trimLeft_no_prefix)
    then show ?thesis by (simp add: ts)
  qed
  have nopre: "\<not> HasPrefix (TrimSpace s) w" if "w \<in> set spaceRunes" for w
  proof
    assume h: "HasPrefix (TrimSpace s) w"
    then have "length w \<le> length (TrimSpace s)" by (rule HasPrefix_length)
    with h have "HasPrefix ?t1 w" by (simp add: t1 HasPrefix_def)
    moreover have "\<not> HasPrefix ?t1 w"
      using spaceRunes_not_Nil that by (rule trimLeft_no_prefix)
    ultimately show False by simp
  qed
  have "s = concat l @ TrimSpace s @ concat ?r" using l(2) t1 by simp
  with l(1) rset nosuf nopre show ?thesis by blast
qed

lemma pieces_parse:
  assumes wf: "\<forall>(n, v)\<in>set (map the (filter (\<lambda>x. x \<noteq> None) ps)).
                 CHR '' '' \<notin> set n \<and> CHR '':'' \<notin> set n \<and>
                 (case v of None \<Rightarrow> n \<noteq> [] | Some s \<Rightarrow> CHR '' '' \<notin> set s)"
    and dist: "distinct (map (\<lambda>(n, v). ToLower U n) (map the (filter (\<lambda>x. x \<noteq> None) ps)))"
    and ne: "ps \<noteq> []"
  shows "annotationsLoop U Map.empty (Split (joinSpaces (map pieceText ps)) (CHR '' '')) =
         Inr (map_of (map (\<lambda>(n, v). (ToLower U n,
                \<lparr>Value = (case v of None \<Rightarrow> [] | Some s \<Rightarrow> TrimSpace s)\<rparr>))
                  (map the (filter (\<lambda>x. x \<noteq> None) ps))))"
proof -
  let ?toks = "map the (filter (\<lambda>x. x \<noteq> None) ps)"
  have tok: "CHR '' '' \<notin> set (tokenText t)" if "t \<in> set ?toks" for t
    using wf that by (cases t; cases "snd t") auto
  have nosp: "\<forall>s\<in>set (map pieceText ps). CHR '' '' \<notin> set s"
  proof
    fix s assume "s \<in> set (map pieceText ps)"
    then obtain x where x: "x \<in> set ps" "s = pieceText x" by auto
    show "CHR '' '' \<notin> set s"
    proof (cases x)
      case None
      with x show ?thesis by simp
    next
      case (Some t)
      with x have "t \<in> set ?toks" by force
      from tok [OF this] x Some show ?thesis by simp
    qed
  qed
  have split: "Split (joinSpaces (map pieceText ps)) (CHR '' '') = map pieceText ps"
    using nosp ne by (intro Split_joinSpaces) simp_all
  have wf': "\<forall>t\<in>set ?toks. CHR '':'' \<notin> set (fst t) \<and> (snd t = None \<longrightarrow> fst t \<noteq> [])"
    using wf by (auto split: option.splits)
  have dist': "distinct (map (\<lambda>t. ToLower U (fst t)) ?toks)"
  proof -
    have "(\<lambda>(n, v). ToLower U n) = (\<lambda>t :: string \<times> string option. ToLower U (fst t))"
      by (simp add: fun_eq_iff)
    with dist show ?thesis by simp
  qed
  have "annotationsLoop U Map.empty (map tokenText ?toks) =
        Inr (Map.empty ++ map_of (map (\<lambda>t. (ToLower U (fst t),
               \<lparr>Value = (case snd t of None \<Rightarrow> [] | Some s \<Rightarrow> TrimSpace s)\<rparr>)) ?toks))"
    by (rule annotationsLoop_tokens [OF wf' dist']) simp
  then have "annotationsLoop U Map.empty (map pieceText ps) =
        Inr (map_of (map (\<lambda>(n, v). (ToLower U n,
               \<lparr>Value = (case v of None \<Rightarrow> [] | Some s \<Rightarrow> TrimSpace s)\<rparr>)) ?toks))"
    by (simp only: annotationsLoop_pieces) (simp add: case_prod_unfold)
  then show ?thesis by (simp only: split)
qed

lemma setAnnotations_pieces:
  assumes body: "tagBody t = joinSpaces (map pieceText ps)"
    and wf: "\<forall>(n, v)\<in>set (map the (filter (\<lambda>x. x \<noteq> None) ps)).
                 CHR '' '' \<notin> set n \<and> CHR '':'' \<notin> set n \<and>
                 (case v of None \<Rightarrow> n \<noteq> [] | Some s \<Rightarrow> CHR '' '' \<notin> set s)"
    and dist: "distinct (map (\<lambda>(n, v). ToLower U n) (map the (filter (\<lambda>x. x \<noteq> None) ps)))"
  shows "setAnnotations U p t =
         Inr (if tagBody t = [] then p
              else p\<lparr>Annotations := map_of (map (\<lambda>(n, v). (ToLower U n,
                \<lparr>Value = (case v of None \<Rightarrow> [] | Some s \<Rightarrow> TrimSpace s)\<rparr>))
                  (map the (filter (\<lambda>x. x \<noteq> None) ps)))\<rparr>)"
proof (cases "tagBody t = []")
  case True
  then show ?thesis by (simp add: setAnnotations_body)
next
  case False
  with body have "ps \<noteq> []" by auto
  from pieces_parse [OF wf dist this] False show ?thesis
    by (simp only: setAnnotations_body body [symmetric] if_False sum.case)
qed

lemma tokens_entries:
  assumes dist: "distinct (map (\<lambda>(n, v). ToLower U n) toks)"
  shows "card (dom (map_of (map (\<lambda>(n, v). (ToLower U n,
                \<lparr>Value = (case v of None \<Rightarrow> [] | Some s \<Rightarrow> TrimSpace s)\<rparr>)) toks))) = length toks"
    and "\<forall>(n, v)\<in>set toks. map_of (map (\<lambda>(n, v). (ToLower U n,
                \<lparr>Value = (case v of None \<Rightarrow> [] | Some s \<Rightarrow> TrimSpace s)\<rparr>)) toks) (ToLower U n)
           = Some \<lparr>Value = (case v of None \<Rightarrow> [] | Some s \<Rightarrow> TrimSpace s)\<rparr>"
proof -
  let ?e = "\<lambda>(n, v). (ToLower U n, \<lparr>Value = (case v of None \<Rightarrow> [] | Some s \<Rightarrow> TrimSpace s)\<rparr>)"
  have keys: "map fst (map ?e toks) = map (\<lambda>(n, v). ToLower U n) toks"
    by (simp add: case_prod_unfold)
  have d: "distinct (map fst (map ?e toks))" using dist by (simp only: keys)
  have "dom (map_of (map ?e toks)) = set (map fst (map ?e toks))"
    by (simp only: dom_map_of_conv_image_fst set_map)
  then have "card (dom (map_of (map ?e toks))) = length (map fst (map ?e toks))"
    using d by (simp only: distinct_card)
  then show "card (dom (map_of (map ?e toks))) = length toks" by simp
  show "\<forall>(n, v)\<in>set toks. map_of (map ?e toks) (ToLower U n)
           = Some \<lparr>Value = (case v of None \<Rightarrow> [] | Some s \<Rightarrow> TrimSpace s)\<rparr>"
  proof (clarify)
    fix n v assume "(n, v) \<in> set toks"
    then have "?e (n, v) \<in> set (map ?e toks)" by force
    with d have "map_of (map ?e toks) (fst (?e (n, v))) = Some (snd (?e (n, v)))"
      by (metis map_of_is_SomeI prod.collapse)
    then show "map_of (map ?e toks) (ToLower U n)
           = Some \<lparr>Value = (case v of None \<Rightarrow> [] | Some s \<Rightarrow> TrimSpace s)\<rparr>" by simp
  qed
qed

subsection \<open>Well-formed tags\<close>

text \<open>
  C6 as stated fails: a value in double quotes may hold a space, and the split at
  spaces of line 252 then cuts the token inside the quotes.  For \<open>nameindb:"my name"\<close>
  the first piece is \<open>nameindb:"my\<close>, whose value does not end in a quote; for
  \<open>nameindb:" x "\<close> it is \<open>nameindb:"\<close>.  Parsing fails with the format error on both.
\<close>

theorem quoted_value_with_space:
  "setAnnotations id (newProperty ''F'') ''`nameindb:\"my name\"`''
     = Inl (InvalidAnnotationValue (CHR 0x22 # ''my'') ''nameindb'') \<and>
   setAnnotations id (newProperty ''F'') ''`nameindb:\" x \"`''
     = Inl (InvalidAnnotationValue [CHR 0x22] ''nameindb'')"
  by (simp add: setAnnotations_def tagAnnotation_def IndexRune_def Let_def)

text \<open>
  C6, amended.  Take a tag literal whose body (the literal without its backquotes or
  double quotes, when it has them) is made of tokens with spaces, in any number, before,
  between and after them; each token is a name (not empty, without space or colon) or
  a name (without space or colon), a colon and a value without a space character in
  double quotes; no two names are equal after lowering.  Then parsing succeeds.  If the
  body is empty the property is left as it is; otherwise its mapping has exactly one
  entry for each token, under the lowered name, holding the empty string for a name
  alone and the trimmed value for a quoted value.  The trimmed value is the value
  without the runs of white-space runes at its two ends: it neither starts nor ends
  with a white-space rune.
\<close>

theorem setAnnotations_wellformed_tag:
  assumes "tagBody t = joinSpaces (map pieceText ps)"
    and "\<forall>(n, v)\<in>set (map the (filter (\<lambda>x. x \<noteq> None) ps)).
           CHR '' '' \<notin> set n \<and> CHR '':'' \<notin> set n \<and>
           (case v of None \<Rightarrow> n \<noteq> [] | Some s \<Rightarrow> CHR '' '' \<notin> set s)"
    and "distinct (map (\<lambda>(n, v). ToLower U n) (map the (filter (\<lambda>x. x \<noteq> None) ps)))"
  shows "(let toks = map the (filter (\<lambda>x. x \<noteq> None) ps);
              m = map_of (map (\<lambda>(n, v). (ToLower U n,
                    \<lparr>Value = (case v of None \<Rightarrow> [] | Some s \<Rightarrow> TrimSpace s)\<rparr>)) toks)
          in setAnnotations U p t = Inr (if tagBody t = [] then p else p\<lparr>Annotations := m\<rparr>) \<and>
             card (dom m) = length toks \<and>
             (\<forall>(n, v)\<in>set toks.
                m (ToLower U n) = Some \<lparr>Value = (case v of None \<Rightarrow> [] | Some s \<Rightarrow> TrimSpace s)\<rparr>) \<and>
             (\<forall>(n, v)\<in>set toks. \<forall>s. v = Some s \<longrightarrow>
                (\<exists>l r. set l \<subseteq> set spaceRunes \<and> set r \<subseteq> set spaceRunes \<and>
                       s = concat l @ TrimSpace s @ concat r \<and>
                       (\<forall>w\<in>set spaceRunes. \<not> HasPrefix (TrimSpace s) w \<and>
                                             \<not> HasPrefix (rev (TrimSpace s)) (rev w)))))"
  using setAnnotations_pieces [OF assms, of p] tokens_entries [OF assms(3)] TrimSpace_trims
  by (simp only: Let_def) blast

theorem setAnnotations_wellformed_tag_witness:
  "setAnnotations id (newProperty ''F'')
     (''` id  Index:\"'' @ [CHR 0x09] @ ''hash'' @ [CHR 0x0A] @ ''\" nameInDb:\"x\" `'')
     = Inr (newProperty ''F''\<lparr>Annotations :=
              [''nameindb'' \<mapsto> \<lparr>Value = ''x''\<rparr>, ''index'' \<mapsto> \<lparr>Value = ''hash''\<rparr>,
               ''id'' \<mapsto> \<lparr>Value = []\<rparr>]\<rparr>) \<and>
   setAnnotations id (newProperty ''F'') ''id Index:\"hash\"''
     = Inr (newProperty ''F''\<lparr>Annotations :=
              [''index'' \<mapsto> \<lparr>Value = ''hash''\<rparr>, ''id'' \<mapsto> \<lparr>Value = []\<rparr>]\<rparr>) \<and>
   setAnnotations id (newProperty ''F'') ''\"  \"'' = Inr (newProperty ''F'') \<and>
   card (dom [''nameindb'' \<mapsto> \<lparr>Value = ''x''\<rparr>, ''index'' \<mapsto> \<lparr>Value = ''hash''\<rparr>,
               ''id'' \<mapsto> \<lparr>Value = []\<rparr>]) = 3"
proof -
  have lower: "ToLower id ''id'' = ''id''" "ToLower id ''Index'' = ''index''"
    "ToLower id ''nameInDb'' = ''nameindb''"
    by code_simp+
  have trim: "TrimSpace [CHR 0x09, CHR ''h'', CHR ''a'', CHR ''s'', CHR ''h'', CHR 0x0A] = ''hash''"
    "TrimSpace ''x'' = ''x''"
    "TrimSpace ''hash'' = ''hash''"
    by code_simp+
  have 1: "setAnnotations id (newProperty ''F'')
     (''` id  Index:\"'' @ [CHR 0x09] @ ''hash'' @ [CHR 0x0A] @ ''\" nameInDb:\"x\" `'')
     = Inr (newProperty ''F''\<lparr>Annotations :=
              [''nameindb'' \<mapsto> \<lparr>Value = ''x''\<rparr>, ''index'' \<mapsto> \<lparr>Value = ''hash''\<rparr>,
               ''id'' \<mapsto> \<lparr>Value = []\<rparr>]\<rparr>) \<and>
     card (dom [''nameindb'' \<mapsto> \<lparr>Value = ''x''\<rparr>, ''index'' \<mapsto> \<lparr>Value = ''hash''\<rparr>,
               ''id'' \<mapsto> \<lparr>Value = []\<rparr>]) = 3"
    using setAnnotations_wellformed_tag
      [where U = id and p = "newProperty ''F''"
         and t = "''` id  Index:\"'' @ [CHR 0x09] @ ''hash'' @ [CHR 0x0A] @ ''\" nameInDb:\"x\" `''"
         and ps = "[None, Some (''id'', None), None,
                    Some (''Index'', Some (CHR 0x09 # ''hash'' @ [CHR 0x0A])),
                    Some (''nameInDb'', Some ''x''), None]"]
    by (simp add: lower trim Let_def tagBody_def)
  have 2: "setAnnotations id (newProperty ''F'') ''id Index:\"hash\"''
     = Inr (newProperty ''F''\<lparr>Annotations :=
              [''index'' \<mapsto> \<lparr>Value = ''hash''\<rparr>, ''id'' \<mapsto> \<lparr>Value = []\<rparr>]\<rparr>)"
    using setAnnotations_wellformed_tag
      [where U = id and p = "newProperty ''F''" and t = "''id Index:\"hash\"''"
         and ps = "[Some (''id'', None), Some (''Index'', Some ''hash'')]"]
    by (simp add: lower trim Let_def tagBody_def)
  have 3: "setAnnotations id (newProperty ''F'') ''\"  \"'' = Inr (newProperty ''F''\<lparr>Annotations := Map.empty\<rparr>)"
    using setAnnotations_wellformed_tag
      [where U = id and p = "newProperty ''F''" and t = "''\"  \"''"
         and ps = "[None, None, None]"]
    by (simp add: Let_def tagBody_def)
  from 1 2 3 show ?thesis by (simp add: newProperty_def)
qed

section \<open>Entity build: the loop over the fields\<close>

lemma fieldsLoop_append:
  "fieldsLoop U st (xs @ ys) =
     (case fieldsLoop U st xs of Inl e \<Rightarrow> Inl e | Inr st' \<Rightarrow> fieldsLoop U st' ys)"
  by (induction xs arbitrary: st) (auto split: sum.splits option.splits)

lemma addProperty_EntityName:
  "addProperty U st p = Inr st' \<Longrightarrow> EntityName (fst st') = EntityName (fst st)"
  by (cases st) (auto simp: addProperty_def Let_def split: if_splits option.splits)

lemma fieldsLoop_EntityName:
  "fieldsLoop U st fs = Inr st' \<Longrightarrow> EntityName (fst st') = EntityName (fst st)"
proof (induction fs arbitrary: st)
  case Nil
  then show ?case by simp
next
  case (Cons f fs)
  then show ?case
    by (auto split: sum.splits option.splits dest!: addProperty_EntityName)
qed

lemma fieldsLoop_fails_at:
  assumes "fieldsLoop U st pre = Inr st'"
    and "fieldProperty U (EntityName (fst st)) f = Inl e"
  shows "fieldsLoop U st (pre @ f # post) = Inl e"
  using assms fieldsLoop_EntityName [OF assms(1)]
  by (simp add: fieldsLoop_append)

lemma fieldsLoop_skips:
  assumes "fieldProperty U (EntityName (fst st)) f = Inr None"
  shows "fieldsLoop U st (pre @ f # post) = fieldsLoop U st (pre @ post)"
proof (cases "fieldsLoop U st pre")
  case (Inl e)
  then show ?thesis by (simp add: fieldsLoop_append)
next
  case (Inr st')
  with assms fieldsLoop_EntityName [OF Inr] show ?thesis
    by (simp add: fieldsLoop_append)
qed

lemma fieldsLoop_member_fails:
  assumes "f \<in> set fs" "isl (fieldProperty U (EntityName (fst st)) f)"
  shows "isl (fieldsLoop U st fs)"
proof -
  from assms(1) obtain pre post where fs: "fs = pre @ f # post"
    by (auto simp: in_set_conv_decomp)
  from assms(2) obtain e where e: "fieldProperty U (EntityName (fst st)) f = Inl e"
    by (cases "fieldProperty U (EntityName (fst st)) f") auto
  show ?thesis
  proof (cases "fieldsLoop U st pre")
    case (Inl e')
    then show ?thesis by (simp add: fs fieldsLoop_append)
  next
    case (Inr st')
    then show ?thesis using fieldsLoop_fails_at [OF Inr e] by (simp add: fs)
  qed
qed

lemma createEntityFromAst_loop_fails:
  "fieldsLoop U (newEntity (currentEntityName b), {}) fs = Inl e \<Longrightarrow>
   createEntityFromAst U b (Node (StructType fs) cs) = Inl e"
  by (simp add: createEntityFromAst_def)

lemma createEntityFromAst_cong_loop:
  "fieldsLoop U (newEntity (currentEntityName b), {}) fs =
   fieldsLoop U (newEntity (currentEntityName b), {}) fs' \<Longrightarrow>
   createEntityFromAst U b (Node (StructType fs) cs) =
   createEntityFromAst U b (Node (StructType fs') cs')"
  by (simp add: createEntityFromAst_def)

lemma EntityName_newEntity [simp]: "EntityName (newEntity n) = n"
  by (simp add: newEntity_def)

text \<open>The definitions and lowerings that evaluate a build on concrete fields.\<close>

lemmas build_defs =
  createEntityFromAst_def fieldProperty_def addProperty_def setAnnotations_def
  tagAnnotation_def IndexRune_def setType_def baseTypes_def setObFlags_def setIndex_def
  addObFlag_def newProperty_def newEntity_def newBinding_def Let_def

lemma ToLower_names:
  "ToLower U ''id'' = ''id''"
  "ToLower U ''Id'' = ''id''"
  "ToLower U ''ID'' = ''id''"
  "ToLower U ''uint64'' = ''uint64''"
  "ToLower U ''transient'' = ''transient''"
  "ToLower U ''index'' = ''index''"
  "ToLower U ''unique'' = ''unique''"
  "ToLower U ''nameindb'' = ''nameindb''"
  "ToLower U ''Name'' = ''name''"
  "ToLower U ''name'' = ''name''"
  "ToLower U ''NAME'' = ''name''"
  "ToLower U ''Cache'' = ''cache''"
  "ToLower U ''Key'' = ''key''"
  "ToLower U ''nameInDb'' = ''nameindb''"
  "ToLower U ''Col'' = ''col''"
  "ToLower U ''date'' = ''date''"
  "ToLower U ''link'' = ''link''"
  "ToLower U ''a'' = ''a''"
  by code_simp+

subsection \<open>Transient fields\<close>

lemma fieldProperty_parse_error:
  assumes "Tag f = Some t" "setAnnotations U (newProperty (Names f ! 0)) t = Inl e"
  shows "fieldProperty U en f =
     (if length (Names f) \<noteq> 1 then Inl (InvalidNumberOfNames en (length (Names f)))
      else Inl (PropertyError e (Names f ! 0) en))"
  using assms by (simp add: fieldProperty_def Let_def newProperty_def)

lemma fieldProperty_transient:
  assumes "Tag f = Some t" "setAnnotations U (newProperty (Names f ! 0)) t = Inr p"
    "Annotations p ''transient'' \<noteq> None"
  shows "fieldProperty U en f =
     (if length (Names f) \<noteq> 1 then Inl (InvalidNumberOfNames en (length (Names f)))
      else Inr None)"
  using assms by (auto simp add: fieldProperty_def Let_def)

text \<open>
  C9.  The tag of a field is parsed before the \<open>transient\<close> annotation is looked at: a
  field whose tag does not parse (whatever tokens it holds, \<open>transient\<close> included) makes
  every entity build that contains it fail, with the parser's error on that property
  when the fields before it are accepted.  A field whose tag parses and holds
  \<open>transient\<close> goes through neither type resolution nor flag derivation: the build does
  not depend on its type text, and when the field has one name the build is that of the
  entity without the field.
\<close>

theorem transient_field:
  assumes "Tag f = Some t"
  shows "(isl (setAnnotations U (newProperty (Names f ! 0)) t) \<and> f \<in> set fs \<longrightarrow>
            isl (createEntityFromAst U b (Node (StructType fs) cs))) \<and>
         (\<forall>e st. setAnnotations U (newProperty (Names f ! 0)) t = Inl e \<and> length (Names f) = 1 \<and>
            fieldsLoop U (newEntity (currentEntityName b), {}) pre = Inr st \<longrightarrow>
            createEntityFromAst U b (Node (StructType (pre @ f # post)) cs)
              = Inl (PropertyError e (Names f ! 0) (currentEntityName b))) \<and>
         (\<forall>p. setAnnotations U (newProperty (Names f ! 0)) t = Inr p \<and>
               Annotations p ''transient'' \<noteq> None \<longrightarrow>
            createEntityFromAst U b (Node (StructType (pre @ f\<lparr>Type := ty\<rparr> # post)) cs)
              = createEntityFromAst U b (Node (StructType (pre @ f # post)) cs) \<and>
            (length (Names f) = 1 \<longrightarrow>
               createEntityFromAst U b (Node (StructType (pre @ f # post)) cs)
                 = createEntityFromAst U b (Node (StructType (pre @ post)) cs)))"
proof (intro conjI allI impI)
  assume a: "isl (setAnnotations U (newProperty (Names f ! 0)) t) \<and> f \<in> set fs"
  then obtain e where e: "setAnnotations U (newProperty (Names f ! 0)) t = Inl e"
    by (cases "setAnnotations U (newProperty (Names f ! 0)) t") auto
  have "isl (fieldProperty U (currentEntityName b) f)"
    by (simp add: fieldProperty_parse_error [OF assms e])
  with a have "isl (fieldsLoop U (newEntity (currentEntityName b), {}) fs)"
    by (intro fieldsLoop_member_fails [of f]) simp_all
  then obtain e' where "fieldsLoop U (newEntity (currentEntityName b), {}) fs = Inl e'"
    by (cases "fieldsLoop U (newEntity (currentEntityName b), {}) fs") auto
  then show "isl (createEntityFromAst U b (Node (StructType fs) cs))"
    by (simp add: createEntityFromAst_loop_fails)
next
  fix e st
  assume a: "setAnnotations U (newProperty (Names f ! 0)) t = Inl e \<and> length (Names f) = 1 \<and>
            fieldsLoop U (newEntity (currentEntityName b), {}) pre = Inr st"
  then have "fieldProperty U (EntityName (fst (newEntity (currentEntityName b), {}))) f
      = Inl (PropertyError e (Names f ! 0) (currentEntityName b))"
    using fieldProperty_parse_error [OF assms, of U e] by simp
  with a have "fieldsLoop U (newEntity (currentEntityName b), {}) (pre @ f # post)
      = Inl (PropertyError e (Names f ! 0) (currentEntityName b))"
    by (intro fieldsLoop_fails_at) auto
  then show "createEntityFromAst U b (Node (StructType (pre @ f # post)) cs)
              = Inl (PropertyError e (Names f ! 0) (currentEntityName b))"
    by (rule createEntityFromAst_loop_fails)
next
  fix p
  assume a: "setAnnotations U (newProperty (Names f ! 0)) t = Inr p \<and>
               Annotations p ''transient'' \<noteq> None"
  have same: "fieldProperty U en (f\<lparr>Type := ty\<rparr>) = fieldProperty U en f" for en
    using a assms
      fieldProperty_transient [of f t U p en]
      fieldProperty_transient [of "f\<lparr>Type := ty\<rparr>" t U p en]
    by simp
  have "fieldsLoop U st (pre @ f\<lparr>Type := ty\<rparr> # post) = fieldsLoop U st (pre @ f # post)" for st
    by (simp add: fieldsLoop_append same split: sum.splits)
  then show "createEntityFromAst U b (Node (StructType (pre @ f\<lparr>Type := ty\<rparr> # post)) cs)
              = createEntityFromAst U b (Node (StructType (pre @ f # post)) cs)"
    by (intro createEntityFromAst_cong_loop) simp
next
  fix p
  assume a: "setAnnotations U (newProperty (Names f ! 0)) t = Inr p \<and>
               Annotations p ''transient'' \<noteq> None"
    and one: "length (Names f) = 1"
  have "fieldProperty U (EntityName (fst (newEntity (currentEntityName b), {}))) f = Inr None"
    using a one fieldProperty_transient [OF assms, of U p] by simp
  then have "fieldsLoop U (newEntity (currentEntityName b), {}) (pre @ f # post)
      = fieldsLoop U (newEntity (currentEntityName b), {}) (pre @ post)"
    by (rule fieldsLoop_skips)
  then show "createEntityFromAst U b (Node (StructType (pre @ f # post)) cs)
                 = createEntityFromAst U b (Node (StructType (pre @ post)) cs)"
    by (rule createEntityFromAst_cong_loop)
qed

theorem transient_field_witness:
  "createEntityFromAst id (newBinding\<lparr>currentEntityName := ''User''\<rparr>)
     (Node (StructType
        [\<lparr>Names = [''Id''], Tag = None, Type = ''uint64''\<rparr>,
         \<lparr>Names = [''Cache''], Tag = Some ''`transient index:hash`'', Type = ''map[string]int''\<rparr>]) [])
     = Inl (PropertyError (InvalidAnnotationValue ''hash'' ''index'') ''Cache'' ''User'') \<and>
   createEntityFromAst id (newBinding\<lparr>currentEntityName := ''User''\<rparr>)
     (Node (StructType
        [\<lparr>Names = [''Id''], Tag = None, Type = ''uint64''\<rparr>,
         \<lparr>Names = [''Cache''], Tag = Some ''`transient`'', Type = ''map[string]int''\<rparr>]) [])
     = createEntityFromAst id (newBinding\<lparr>currentEntityName := ''User''\<rparr>)
         (Node (StructType [\<lparr>Names = [''Id''], Tag = None, Type = ''uint64''\<rparr>]) []) \<and>
   createEntityFromAst id (newBinding\<lparr>currentEntityName := ''User''\<rparr>)
     (Node (StructType
        [\<lparr>Names = [''Id''], Tag = None, Type = ''uint64''\<rparr>,
         \<lparr>Names = [''Cache''], Tag = Some ''`transient`'', Type = ''map[string]int''\<rparr>]) [])
     = createEntityFromAst id (newBinding\<lparr>currentEntityName := ''User''\<rparr>)
     (Node (StructType
        [\<lparr>Names = [''Id''], Tag = None, Type = ''uint64''\<rparr>,
         \<lparr>Names = [''Cache''], Tag = Some ''`transient`'', Type = ''int''\<rparr>]) [])"
  using
    transient_field [of "\<lparr>Names = [''Cache''], Tag = Some ''`transient index:hash`'', Type = ''map[string]int''\<rparr>"
      "''`transient index:hash`''" id "[]" "newBinding\<lparr>currentEntityName := ''User''\<rparr>" "[]"
      "[\<lparr>Names = [''Id''], Tag = None, Type = ''uint64''\<rparr>]" "[]" "''int''"]
    transient_field [of "\<lparr>Names = [''Cache''], Tag = Some ''`transient`'', Type = ''int''\<rparr>"
      "''`transient`''" id "[]" "newBinding\<lparr>currentEntityName := ''User''\<rparr>" "[]"
      "[\<lparr>Names = [''Id''], Tag = None, Type = ''uint64''\<rparr>]" "[]" "''map[string]int''"]
  by (simp add: build_defs ToLower_names)

subsection \<open>Storage names that differ only by case\<close>

lemma addProperty_names_mono: "addProperty U st p = Inr st' \<Longrightarrow> snd st \<subseteq> snd st'"
  by (cases st) (auto simp: addProperty_def Let_def split: if_splits option.splits)

lemma fieldsLoop_names_mono: "fieldsLoop U st fs = Inr st' \<Longrightarrow> snd st \<subseteq> snd st'"
proof (induction fs arbitrary: st)
  case Nil
  then show ?case by simp
next
  case (Cons f fs)
  then show ?case
    by (auto split: sum.splits option.splits dest!: addProperty_names_mono)
qed

lemma addProperty_records_name:
  "addProperty U st p = Inr st' \<Longrightarrow> ToLower U (storageName p) \<in> snd st'"
  by (cases st) (auto simp: addProperty_def Let_def split: if_splits option.splits)

lemma addProperty_duplicate:
  assumes "ToLower U (storageName p) \<in> snd st"
  shows "isl (addProperty U st p)"
  using assms
  by (cases st) (auto simp: addProperty_def Let_def split: if_splits option.splits)

lemma addProperty_duplicate_error:
  assumes "ToLower U (storageName p) \<in> snd st"
    and "Annotations p ''id'' = None \<or> IdProperty (fst st) = None"
    and "\<forall>a. Annotations p ''nameindb'' = Some a \<longrightarrow> Value a \<noteq> []"
  shows "addProperty U st p = Inl (PropertyError DuplicateName (Name p) (EntityName (fst st)))"
  using assms
  by (cases st) (auto simp: addProperty_def Let_def split: if_splits option.splits)

lemma fieldsLoop_step:
  assumes "fieldsLoop U st pre = Inr st'" "fieldProperty U (EntityName (fst st)) f = Inr (Some p)"
  shows "fieldsLoop U st (pre @ f # post) =
     (case addProperty U st' p of Inl e \<Rightarrow> Inl e | Inr st'' \<Rightarrow> fieldsLoop U st'' post)"
  using assms fieldsLoop_EntityName [OF assms(1)] by (simp add: fieldsLoop_append)

lemma fieldsLoop_accepted_name:
  assumes "fieldsLoop U st (pre @ f # mid) = Inr st'"
    and "fieldProperty U (EntityName (fst st)) f = Inr (Some p)"
  shows "ToLower U (storageName p) \<in> snd st'"
proof -
  from assms(1) obtain st1 where 1: "fieldsLoop U st pre = Inr st1"
    by (auto simp: fieldsLoop_append split: sum.splits)
  with assms obtain st2 where 2: "addProperty U st1 p = Inr st2"
    and 3: "fieldsLoop U st2 mid = Inr st'"
    by (auto simp: fieldsLoop_step split: sum.splits)
  from 2 have "ToLower U (storageName p) \<in> snd st2" by (rule addProperty_records_name)
  with fieldsLoop_names_mono [OF 3] show ?thesis by blast
qed

lemma fieldsLoop_duplicate_fails:
  assumes "fieldProperty U (EntityName (fst st)) f1 = Inr (Some p1)"
    and "fieldProperty U (EntityName (fst st)) f2 = Inr (Some p2)"
    and "ToLower U (storageName p1) = ToLower U (storageName p2)"
  shows "isl (fieldsLoop U st (pre @ f1 # mid @ f2 # post))"
proof (cases "fieldsLoop U st (pre @ f1 # mid)")
  case (Inl e)
  then have "fieldsLoop U st ((pre @ f1 # mid) @ f2 # post) = Inl e"
    by (simp only: fieldsLoop_append sum.case)
  then show ?thesis by simp
next
  case (Inr st')
  have "ToLower U (storageName p2) \<in> snd st'"
    using fieldsLoop_accepted_name [OF Inr assms(1)] assms(3) by simp
  then have "isl (addProperty U st' p2)" by (rule addProperty_duplicate)
  then obtain e where "addProperty U st' p2 = Inl e" by (cases "addProperty U st' p2") auto
  then have "fieldsLoop U st ((pre @ f1 # mid) @ f2 # post) = Inl e"
    using fieldsLoop_step [OF Inr assms(2)] by simp
  then show ?thesis by simp
qed

lemma createEntityFromAst_loop_isl:
  "isl (fieldsLoop U (newEntity (currentEntityName b), {}) fs) \<Longrightarrow>
   isl (createEntityFromAst U b (Node (StructType fs) cs))"
  by (cases "fieldsLoop U (newEntity (currentEntityName b), {}) fs")
     (auto simp: createEntityFromAst_loop_fails)

text \<open>
  C7 as stated fails on the error: for the fields \<open>Name string\<close> and \<open>NAME text\<close>, whose
  storage names are equal after lowering, the build fails on the unknown type of the
  second field, which is checked before the names; the error is not the duplicate-name
  error.
\<close>

theorem duplicate_storage_name_other_error_first:
  "createEntityFromAst id (newBinding\<lparr>currentEntityName := ''User''\<rparr>)
     (Node (StructType
        [\<lparr>Names = [''Name''], Tag = None, Type = ''string''\<rparr>,
         \<lparr>Names = [''NAME''], Tag = None, Type = ''text''\<rparr>]) [])
     = Inl (PropertyError (UnknownType ''text'') ''NAME'' ''User'')"
  by (simp add: build_defs ToLower_names)

text \<open>
  C7, amended.  An entity build with two retained fields (not transient, each passing
  tag parsing, type resolution and flag derivation) whose storage names are equal after
  lowering fails, in either order of the two fields.  The error is the duplicate-name
  error on the later field whenever all fields up to it are accepted and the later
  field passes the two checks that come before the name check (it is not a second \<open>id\<close>
  field and its \<open>nameindb\<close> value is not empty).
\<close>

theorem duplicate_storage_name:
  assumes "fieldProperty U (currentEntityName b) f1 = Inr (Some p1)"
    and "fieldProperty U (currentEntityName b) f2 = Inr (Some p2)"
    and "ToLower U (storageName p1) = ToLower U (storageName p2)"
  shows "isl (createEntityFromAst U b (Node (StructType (pre @ f1 # mid @ f2 # post)) cs)) \<and>
         isl (createEntityFromAst U b (Node (StructType (pre @ f2 # mid @ f1 # post)) cs)) \<and>
         (\<forall>st. fieldsLoop U (newEntity (currentEntityName b), {}) (pre @ f1 # mid) = Inr st \<and>
               (Annotations p2 ''id'' = None \<or> IdProperty (fst st) = None) \<and>
               (\<forall>a. Annotations p2 ''nameindb'' = Some a \<longrightarrow> Value a \<noteq> []) \<longrightarrow>
            createEntityFromAst U b (Node (StructType (pre @ f1 # mid @ f2 # post)) cs)
              = Inl (PropertyError DuplicateName (Name p2) (currentEntityName b)))"
proof (intro conjI allI impI)
  show "isl (createEntityFromAst U b (Node (StructType (pre @ f1 # mid @ f2 # post)) cs))"
    using assms
    by (intro createEntityFromAst_loop_isl fieldsLoop_duplicate_fails [of U _ f1 p1 f2 p2])
      simp_all
  show "isl (createEntityFromAst U b (Node (StructType (pre @ f2 # mid @ f1 # post)) cs))"
    using assms
    by (intro createEntityFromAst_loop_isl fieldsLoop_duplicate_fails [of U _ f2 p2 f1 p1])
      simp_all
next
  fix st
  let ?init = "(newEntity (currentEntityName b), {}) :: Entity \<times> string set"
  assume a: "fieldsLoop U ?init (pre @ f1 # mid) = Inr st \<and>
               (Annotations p2 ''id'' = None \<or> IdProperty (fst st) = None) \<and>
               (\<forall>a. Annotations p2 ''nameindb'' = Some a \<longrightarrow> Value a \<noteq> [])"
  then have loop: "fieldsLoop U ?init (pre @ f1 # mid) = Inr st" by simp
  have "ToLower U (storageName p2) \<in> snd st"
    using fieldsLoop_accepted_name [OF loop] assms(1,3) by simp
  with a have "addProperty U st p2 = Inl (PropertyError DuplicateName (Name p2) (EntityName (fst st)))"
    by (intro addProperty_duplicate_error) simp_all
  moreover have "EntityName (fst st) = currentEntityName b"
    using fieldsLoop_EntityName [OF loop] by simp
  ultimately have "fieldsLoop U ?init ((pre @ f1 # mid) @ f2 # post)
      = Inl (PropertyError DuplicateName (Name p2) (currentEntityName b))"
    using fieldsLoop_step [OF loop, of f2 p2 post] assms(2) by simp
  then show "createEntityFromAst U b (Node (StructType (pre @ f1 # mid @ f2 # post)) cs)
              = Inl (PropertyError DuplicateName (Name p2) (currentEntityName b))"
    by (intro createEntityFromAst_loop_fails) simp
qed

lemma TrimSpace_evaluated:
  "TrimSpace [] = []"
  "TrimSpace ''NAME'' = ''NAME''"
  "TrimSpace ''a'' = ''a''"
  "TrimSpace ''User'' = ''User''"
  by code_simp+

theorem duplicate_storage_name_witness:
  "createEntityFromAst id (newBinding\<lparr>currentEntityName := ''User''\<rparr>)
     (Node (StructType
        [\<lparr>Names = [''Id''], Tag = None, Type = ''uint64''\<rparr>,
         \<lparr>Names = [''Name''], Tag = None, Type = ''string''\<rparr>,
         \<lparr>Names = [''Col''], Tag = Some ''`nameInDb:\"NAME\"`'', Type = ''string''\<rparr>]) [])
     = Inl (PropertyError DuplicateName ''Col'' ''User'') \<and>
   isl (createEntityFromAst id (newBinding\<lparr>currentEntityName := ''User''\<rparr>)
     (Node (StructType
        [\<lparr>Names = [''Id''], Tag = None, Type = ''uint64''\<rparr>,
         \<lparr>Names = [''Col''], Tag = Some ''`nameInDb:\"NAME\"`'', Type = ''string''\<rparr>,
         \<lparr>Names = [''Name''], Tag = None, Type = ''string''\<rparr>]) []))"
  using duplicate_storage_name
    [where U = id and b = "newBinding\<lparr>currentEntityName := ''User''\<rparr>"
       and ?f1.0 = "\<lparr>Names = [''Name''], Tag = None, Type = ''string''\<rparr>"
       and ?p1.0 = "newProperty ''Name''\<lparr>GoType := ''string'', ObType := ''String'',
                      FbType := ''UOffsetT''\<rparr>"
       and ?f2.0 = "\<lparr>Names = [''Col''], Tag = Some ''`nameInDb:\"NAME\"`'', Type = ''string''\<rparr>"
       and ?p2.0 = "newProperty ''Col''\<lparr>Annotations := [''nameindb'' \<mapsto> \<lparr>Value = ''NAME''\<rparr>],
                      GoType := ''string'', ObType := ''String'', FbType := ''UOffsetT''\<rparr>"
       and pre = "[\<lparr>Names = [''Id''], Tag = None, Type = ''uint64''\<rparr>]"
       and mid = "[]" and post = "[]" and cs = "[]"]
  by (simp add: build_defs ToLower_names TrimSpace_evaluated)

subsection \<open>The identity property\<close>

lemma setAnnotations_result:
  assumes "setAnnotations U p t = Inr p'"
  shows "p' = p \<or> (\<exists>anns. p' = p\<lparr>Annotations := anns\<rparr>)"
proof -
  define tags where "tags =
    (if length t > 1 \<and> t ! 0 = t ! (length t - 1) \<and> (t ! 0 = CHR 0x60 \<or> t ! 0 = CHR 0x22)
     then drop 1 (take (length t - 1) t) else t)"
  have eq: "setAnnotations U p t =
    (if tags = [] then Inr p
     else (case annotationsLoop U Map.empty (Split tags (CHR '' '')) of
             Inl e \<Rightarrow> Inl e
           | Inr anns \<Rightarrow> Inr (p\<lparr>Annotations := anns\<rparr>)))"
    unfolding setAnnotations_def tags_def Let_def ..
  show ?thesis
  proof (cases "tags = []")
    case True
    with eq assms show ?thesis by simp
  next
    case False
    with eq assms show ?thesis
      by (cases "annotationsLoop U Map.empty (Split tags (CHR '' ''))") auto
  qed
qed

lemma setAnnotations_Name: "setAnnotations U p t = Inr p' \<Longrightarrow> Name p' = Name p"
  by (drule setAnnotations_result) auto

lemma setType_Name: "setType p t = Inr p' \<Longrightarrow> Name p' = Name p"
  by (cases "baseTypes t"; cases "Annotations p ''link''")
     (auto simp: setType_def Let_def split: if_splits)

lemma setType_GoType: "setType p t = Inr p' \<Longrightarrow> GoType p' = t \<and> baseTypes t \<noteq> None"
  by (cases "baseTypes t"; cases "Annotations p ''link''")
     (auto simp: setType_def Let_def split: if_splits)

lemma setObFlags_unchanged:
  "setObFlags U p = Inr p' \<Longrightarrow> Name p' = Name p \<and> GoType p' = GoType p \<and> Annotations p' = Annotations p"
proof (cases "Annotations p ''index''")
  case None
  assume "setObFlags U p = Inr p'"
  with None show ?thesis
    by (auto simp: setObFlags_without_index split: if_splits)
next
  case (Some a)
  assume "setObFlags U p = Inr p'"
  with Some show ?thesis
    by (auto simp: setObFlags_with_index Let_def split: if_splits)
qed

lemma fieldProperty_Some:
  assumes "fieldProperty U en f = Inr (Some p)"
  shows "Name p = Names f ! 0" and "baseTypes (GoType p) \<noteq> None"
proof -
  from assms obtain p1 p2 where
    1: "(case Tag f of None \<Rightarrow> Inr (newProperty (Names f ! 0))
         | Some tag \<Rightarrow> setAnnotations U (newProperty (Names f ! 0)) tag) = Inr p1"
    and 2: "setType p1 (Type f) = Inr p2" and 3: "setObFlags U p2 = Inr p"
    by (auto simp: fieldProperty_def Let_def split: if_splits sum.splits)
  from 1 have "Name p1 = Names f ! 0"
    by (auto simp: newProperty_def split: option.splits dest: setAnnotations_Name)
  with setType_Name [OF 2] setObFlags_unchanged [OF 3] show "Name p = Names f ! 0" by simp
  from setType_GoType [OF 2] setObFlags_unchanged [OF 3] show "baseTypes (GoType p) \<noteq> None"
    by simp
qed

lemma addProperty_sets_id:
  assumes "addProperty U st p = Inr st'" "Annotations p ''id'' \<noteq> None"
  shows "IdProperty (fst st') = Some (length (Properties (fst st))) \<and>
         length (Properties (fst st)) < length (Properties (fst st')) \<and>
         Name (Properties (fst st') ! length (Properties (fst st))) = Name p"
  using assms
  by (cases st) (auto simp: addProperty_def Let_def split: if_splits option.splits)

lemma addProperty_keeps_id:
  assumes "addProperty U st p = Inr st'" "IdProperty (fst st) = Some k"
    "k < length (Properties (fst st))"
  shows "IdProperty (fst st') = Some k \<and> k < length (Properties (fst st')) \<and>
         Properties (fst st') ! k = Properties (fst st) ! k"
  using assms
  by (cases st) (auto simp: addProperty_def Let_def nth_append split: if_splits option.splits)

lemma fieldsLoop_keeps_id:
  assumes "fieldsLoop U st fs = Inr st'" "IdProperty (fst st) = Some k"
    "k < length (Properties (fst st))"
  shows "IdProperty (fst st') = Some k \<and> k < length (Properties (fst st')) \<and>
         Properties (fst st') ! k = Properties (fst st) ! k"
  using assms
proof (induction fs arbitrary: st)
  case Nil
  then show ?case by simp
next
  case (Cons f fs)
  show ?case
  proof (cases "fieldProperty U (EntityName (fst st)) f")
    case (Inl e)
    with Cons.prems show ?thesis by simp
  next
    case (Inr r)
    show ?thesis
    proof (cases r)
      case None
      with Inr Cons show ?thesis by simp
    next
      case (Some p)
      with Inr Cons.prems obtain st1 where 1: "addProperty U st p = Inr st1"
        and 2: "fieldsLoop U st1 fs = Inr st'"
        by (auto split: sum.splits)
      from addProperty_keeps_id [OF 1 Cons.prems(2,3)] Cons.IH [OF 2]
      show ?thesis by simp
    qed
  qed
qed

lemma addProperty_second_id:
  assumes "IdProperty (fst st) = Some k" "Annotations p ''id'' \<noteq> None"
  shows "addProperty U st p =
     Inl (MultipleIdProperties (EntityName (fst st)) (Name (Properties (fst st) ! k)) (Name p))"
  using assms by (cases st) (auto simp: addProperty_def)

lemma fieldsLoop_two_ids:
  assumes f1: "fieldProperty U (EntityName (fst st)) f1 = Inr (Some p1)"
    and id1: "Annotations p1 ''id'' \<noteq> None"
    and f2: "fieldProperty U (EntityName (fst st)) f2 = Inr (Some p2)"
    and id2: "Annotations p2 ''id'' \<noteq> None"
    and loop: "fieldsLoop U st (pre @ f1 # mid) = Inr st'"
  shows "fieldsLoop U st (pre @ f1 # mid @ f2 # post) =
     Inl (MultipleIdProperties (EntityName (fst st)) (Name p1) (Name p2))"
proof -
  from loop obtain st1 where 1: "fieldsLoop U st pre = Inr st1"
    by (auto simp: fieldsLoop_append split: sum.splits)
  with loop f1 obtain st2 where 2: "addProperty U st1 p1 = Inr st2"
    and 3: "fieldsLoop U st2 mid = Inr st'"
    by (auto simp: fieldsLoop_step split: sum.splits)
  let ?k = "length (Properties (fst st1))"
  from addProperty_sets_id [OF 2 id1] have
    a: "IdProperty (fst st2) = Some ?k" "?k < length (Properties (fst st2))"
      "Name (Properties (fst st2) ! ?k) = Name p1"
    by simp_all
  from fieldsLoop_keeps_id [OF 3 a(1,2)] a(3) have
    "IdProperty (fst st') = Some ?k" "Name (Properties (fst st') ! ?k) = Name p1"
    by simp_all
  with addProperty_second_id [of st' ?k p2 U] id2 have
    "addProperty U st' p2 =
       Inl (MultipleIdProperties (EntityName (fst st')) (Name p1) (Name p2))"
    by simp
  moreover have "EntityName (fst st') = EntityName (fst st)"
    using loop by (rule fieldsLoop_EntityName)
  ultimately have "fieldsLoop U st ((pre @ f1 # mid) @ f2 # post) =
     Inl (MultipleIdProperties (EntityName (fst st)) (Name p1) (Name p2))"
    using fieldsLoop_step [OF loop f2] by simp
  then show ?thesis by simp
qed

lemma fieldsLoop_two_ids_fail:
  assumes f1: "fieldProperty U (EntityName (fst st)) f1 = Inr (Some p1)"
    and id1: "Annotations p1 ''id'' \<noteq> None"
    and f2: "fieldProperty U (EntityName (fst st)) f2 = Inr (Some p2)"
    and id2: "Annotations p2 ''id'' \<noteq> None"
  shows "isl (fieldsLoop U st (pre @ f1 # mid @ f2 # post))"
proof (cases "fieldsLoop U st (pre @ f1 # mid)")
  case (Inl e)
  then have "fieldsLoop U st ((pre @ f1 # mid) @ f2 # post) = Inl e"
    by (simp only: fieldsLoop_append sum.case)
  then show ?thesis by simp
next
  case (Inr st')
  from fieldsLoop_two_ids [OF f1 id1 f2 id2 Inr] show ?thesis by simp
qed

lemma ToLower_types:
  "ToLower U ''string'' = ''string''" "ToLower U ''int'' = ''int''"
  "ToLower U ''int64'' = ''int64''" "ToLower U ''uint'' = ''uint''"
  "ToLower U ''uint64'' = ''uint64''" "ToLower U ''int32'' = ''int32''"
  "ToLower U ''rune'' = ''rune''" "ToLower U ''uint32'' = ''uint32''"
  "ToLower U ''int16'' = ''int16''" "ToLower U ''uint16'' = ''uint16''"
  "ToLower U ''int8'' = ''int8''" "ToLower U ''uint8'' = ''uint8''"
  "ToLower U ''byte'' = ''byte''" "ToLower U ''[]byte'' = ''[]byte''"
  "ToLower U ''float64'' = ''float64''" "ToLower U ''float32'' = ''float32''"
  "ToLower U ''bool'' = ''bool''"
  by code_simp+

lemma baseTypes_cases:
  "baseTypes t \<noteq> None \<Longrightarrow>
   t \<in> {''string'', ''int'', ''int64'', ''uint'', ''uint64'', ''int32'', ''rune'', ''uint32'',
        ''int16'', ''uint16'', ''int8'', ''uint8'', ''byte'', ''[]byte'', ''float64'',
        ''float32'', ''bool''}"
  unfolding baseTypes_def by (auto split: if_splits)

lemma ToLower_known_type:
  assumes "baseTypes t \<noteq> None"
  shows "ToLower U t = t"
  using baseTypes_cases [OF assms] by (auto simp: ToLower_types)

lemma addProperty_types:
  assumes "addProperty U st p = Inr st'" "baseTypes (GoType p) \<noteq> None"
    "\<forall>q\<in>set (Properties (fst st)). baseTypes (GoType q) \<noteq> None"
  shows "\<forall>q\<in>set (Properties (fst st')). baseTypes (GoType q) \<noteq> None"
  using assms
  by (cases st) (auto simp: addProperty_def Let_def split: if_splits option.splits)

lemma fieldsLoop_types:
  assumes "fieldsLoop U st fs = Inr st'"
    "\<forall>q\<in>set (Properties (fst st)). baseTypes (GoType q) \<noteq> None"
  shows "\<forall>q\<in>set (Properties (fst st')). baseTypes (GoType q) \<noteq> None"
  using assms
proof (induction fs arbitrary: st)
  case Nil
  then show ?case by simp
next
  case (Cons f fs)
  show ?case
  proof (cases "fieldProperty U (EntityName (fst st)) f")
    case (Inl e)
    with Cons.prems show ?thesis by simp
  next
    case (Inr r)
    show ?thesis
    proof (cases r)
      case None
      with Inr Cons show ?thesis by simp
    next
      case (Some p)
      with Inr Cons.prems obtain st1 where 1: "addProperty U st p = Inr st1"
        and 2: "fieldsLoop U st1 fs = Inr st'"
        by (auto split: sum.splits)
      from Inr Some have "baseTypes (GoType p) \<noteq> None" by (auto dest: fieldProperty_Some(2))
      from addProperty_types [OF 1 this Cons.prems(2)] Cons.IH [OF 2] show ?thesis by simp
    qed
  qed
qed

lemma addProperty_id_annotated:
  assumes "addProperty U st p = Inr st'"
    "\<forall>k. IdProperty (fst st) = Some k \<longrightarrow>
       k < length (Properties (fst st)) \<and> Annotations (Properties (fst st) ! k) ''id'' \<noteq> None"
  shows "\<forall>k. IdProperty (fst st') = Some k \<longrightarrow>
       k < length (Properties (fst st')) \<and> Annotations (Properties (fst st') ! k) ''id'' \<noteq> None"
  using assms
  by (cases st) (auto simp: addProperty_def Let_def nth_append split: if_splits option.splits)

lemma fieldsLoop_id_annotated:
  assumes "fieldsLoop U st fs = Inr st'"
    "\<forall>k. IdProperty (fst st) = Some k \<longrightarrow>
       k < length (Properties (fst st)) \<and> Annotations (Properties (fst st) ! k) ''id'' \<noteq> None"
  shows "\<forall>k. IdProperty (fst st') = Some k \<longrightarrow>
       k < length (Properties (fst st')) \<and> Annotations (Properties (fst st') ! k) ''id'' \<noteq> None"
  using assms
proof (induction fs arbitrary: st)
  case Nil
  then show ?case by simp
next
  case (Cons f fs)
  show ?case
  proof (cases "fieldProperty U (EntityName (fst st)) f")
    case (Inl e)
    with Cons.prems show ?thesis by simp
  next
    case (Inr r)
    show ?thesis
    proof (cases r)
      case None
      with Inr Cons show ?thesis by simp
    next
      case (Some p)
      with Inr Cons.prems obtain st1 where 1: "addProperty U st p = Inr st1"
        and 2: "fieldsLoop U st1 fs = Inr st'"
        by (auto split: sum.splits)
      from Cons.IH [OF 2 addProperty_id_annotated [OF 1 Cons.prems(2)]] show ?thesis .
    qed
  qed
qed

lemma idCandidate_adopted:
  "(ToLower U (Name ((Properties e)[i := addObFlag (Properties e ! i) ''ID''] ! j)) = ''id'' \<and>
    ToLower U (GoType ((Properties e)[i := addObFlag (Properties e ! i) ''ID''] ! j)) = ''uint64'')
   = (ToLower U (Name (Properties e ! j)) = ''id'' \<and>
      ToLower U (GoType (Properties e ! j)) = ''uint64'')"
proof (cases "j = i \<and> i < length (Properties e)")
  case True
  then show ?thesis by (simp add: addObFlag_def)
next
  case False
  then show ?thesis by (cases "i < length (Properties e)") (auto simp: list_update_beyond)
qed

lemma idByName_adopted:
  assumes "IdProperty e \<noteq> None"
  shows "idByName U e is =
     (if filter (\<lambda>i. ToLower U (Name (Properties e ! i)) = ''id'' \<and>
                      ToLower U (GoType (Properties e ! i)) = ''uint64'') is = []
      then Inr e else Inl (IdFieldMissingAnnotate (EntityName e)))"
  using assms by (induction "is") (auto simp: Let_def)

lemma idByName_none:
  assumes "IdProperty e = None"
  shows "idByName U e is =
     (case filter (\<lambda>i. ToLower U (Name (Properties e ! i)) = ''id'' \<and>
                        ToLower U (GoType (Properties e ! i)) = ''uint64'') is of
        [] \<Rightarrow> Inr e
      | [i] \<Rightarrow> Inr (e\<lparr>IdProperty := Some i,
                     Properties := (Properties e)[i := addObFlag (Properties e ! i) ''ID'']\<rparr>)
      | _ # _ # _ \<Rightarrow> Inl (IdFieldMissingAnnotate (EntityName e)))"
  using assms
proof (induction "is")
  case Nil
  then show ?case by simp
next
  case (Cons i "is")
  show ?case
  proof (cases "ToLower U (Name (Properties e ! i)) = ''id'' \<and>
                ToLower U (GoType (Properties e ! i)) = ''uint64''")
    case False
    have step: "idByName U e (i # is) = idByName U e is"
      by (simp only: idByName.simps Let_def False if_False)
    have filt: "filter (\<lambda>i. ToLower U (Name (Properties e ! i)) = ''id'' \<and>
                        ToLower U (GoType (Properties e ! i)) = ''uint64'') (i # is)
              = filter (\<lambda>i. ToLower U (Name (Properties e ! i)) = ''id'' \<and>
                        ToLower U (GoType (Properties e ! i)) = ''uint64'') is"
      by (simp only: filter.simps False if_False)
    show ?thesis by (simp only: step filt Cons.IH [OF Cons.prems])
  next
    case True
    let ?e' = "e\<lparr>IdProperty := Some i,
                 Properties := (Properties e)[i := addObFlag (Properties e ! i) ''ID'']\<rparr>"
    have "idByName U e (i # is) = idByName U ?e' is"
      using True Cons.prems by (simp add: Let_def)
    also have "\<dots> =
      (if filter (\<lambda>j. ToLower U (Name (Properties ?e' ! j)) = ''id'' \<and>
                       ToLower U (GoType (Properties ?e' ! j)) = ''uint64'') is = []
       then Inr ?e' else Inl (IdFieldMissingAnnotate (EntityName ?e')))"
      by (rule idByName_adopted) simp
    also have "\<dots> =
      (if filter (\<lambda>j. ToLower U (Name (Properties e ! j)) = ''id'' \<and>
                       ToLower U (GoType (Properties e ! j)) = ''uint64'') is = []
       then Inr ?e' else Inl (IdFieldMissingAnnotate (EntityName e)))"
      by (simp add: idCandidate_adopted)
    finally show ?thesis using True by (simp split: list.splits)
  qed
qed

lemma createEntityFromAst_after_loop:
  assumes "fieldsLoop U (newEntity (currentEntityName b), {}) fs = Inr (e, names)"
  shows "createEntityFromAst U b (Node (StructType fs) cs) =
     (if Properties e = [] then Inl (NoProperties (currentEntityName b))
      else if IdProperty e \<noteq> None then Inr (b\<lparr>Entities := Entities b @ [e]\<rparr>)
      else (case idByName U e [0..<length (Properties e)] of
              Inl x \<Rightarrow> Inl x
            | Inr e' \<Rightarrow> if IdProperty e' = None then Inl (IdFieldMissing (currentEntityName b))
                        else Inr (b\<lparr>Entities := Entities b @ [e']\<rparr>)))"
proof -
  have n: "EntityName e = currentEntityName b"
    using fieldsLoop_EntityName [OF assms] by simp
  have "idByName U e is = Inr e' \<Longrightarrow> EntityName e' = EntityName e" for e' "is"
    by (induction "is" arbitrary: e) (auto simp: Let_def split: if_splits)
  with n show ?thesis using assms
    by (auto simp: createEntityFromAst_def split: sum.splits)
qed

lemma inferred_identity:
  assumes loop: "fieldsLoop U (newEntity (currentEntityName b), {}) fs = Inr (e, names)"
    and ne: "Properties e \<noteq> []"
    and noid: "\<forall>p\<in>set (Properties e). Annotations p ''id'' = None"
  shows "createEntityFromAst U b (Node (StructType fs) cs) =
     (case filter (\<lambda>i. ToLower U (Name (Properties e ! i)) = ''id'' \<and>
                        GoType (Properties e ! i) = ''uint64'') [0..<length (Properties e)] of
        [] \<Rightarrow> Inl (IdFieldMissing (currentEntityName b))
      | [i] \<Rightarrow> Inr (b\<lparr>Entities := Entities b @
                     [e\<lparr>IdProperty := Some i,
                        Properties := (Properties e)[i := addObFlag (Properties e ! i) ''ID'']\<rparr>]\<rparr>)
      | _ # _ # _ \<Rightarrow> Inl (IdFieldMissingAnnotate (currentEntityName b)))"
proof -
  let ?init = "(newEntity (currentEntityName b), {}) :: Entity \<times> string set"
  have "\<forall>k. IdProperty (fst ?init) = Some k \<longrightarrow>
       k < length (Properties (fst ?init)) \<and> Annotations (Properties (fst ?init) ! k) ''id'' \<noteq> None"
    by (simp add: newEntity_def)
  from fieldsLoop_id_annotated [OF loop this] noid have none: "IdProperty e = None"
    by (cases "IdProperty e") (auto simp: all_set_conv_all_nth)
  have "\<forall>q\<in>set (Properties (fst ?init)). baseTypes (GoType q) \<noteq> None"
    by (simp add: newEntity_def)
  from fieldsLoop_types [OF loop this] have
    types: "\<forall>q\<in>set (Properties e). baseTypes (GoType q) \<noteq> None"
    by simp
  have n: "EntityName e = currentEntityName b"
    using fieldsLoop_EntityName [OF loop] by simp
  have cands: "filter (\<lambda>i. ToLower U (Name (Properties e ! i)) = ''id'' \<and>
                        ToLower U (GoType (Properties e ! i)) = ''uint64'')
                 [0..<length (Properties e)]
             = filter (\<lambda>i. ToLower U (Name (Properties e ! i)) = ''id'' \<and>
                        GoType (Properties e ! i) = ''uint64'') [0..<length (Properties e)]"
  proof (rule filter_cong [OF refl])
    fix i assume "i \<in> set [0..<length (Properties e)]"
    then have "Properties e ! i \<in> set (Properties e)" by simp
    with types have "ToLower U (GoType (Properties e ! i)) = GoType (Properties e ! i)"
      by (simp add: ToLower_known_type)
    then show "(ToLower U (Name (Properties e ! i)) = ''id'' \<and>
                ToLower U (GoType (Properties e ! i)) = ''uint64'')
             = (ToLower U (Name (Properties e ! i)) = ''id'' \<and>
                GoType (Properties e ! i) = ''uint64'')"
      by simp
  qed
  show ?thesis
    unfolding createEntityFromAst_after_loop [OF loop] idByName_none [OF none] cands
    using ne none n by (simp split: list.splits)
qed

text \<open>
  C2 as stated fails: of the two fields of this entity both carry the \<open>id\<close> annotation,
  but the first is transient and dropped at line 163 before the check of line 175, so
  the build succeeds with the second as identity property.
\<close>

theorem two_id_fields_one_transient:
  "\<not> isl (createEntityFromAst id (newBinding\<lparr>currentEntityName := ''User''\<rparr>)
     (Node (StructType
        [\<lparr>Names = [''Id''], Tag = Some ''`id transient`'', Type = ''uint64''\<rparr>,
         \<lparr>Names = [''Key''], Tag = Some ''`id`'', Type = ''uint64''\<rparr>]) []))"
  by (simp add: build_defs ToLower_names)

text \<open>
  C2, amended.  If two retained fields (not transient, each passing tag parsing, type
  resolution and flag derivation) carry the \<open>id\<close> annotation the build fails, and when
  the fields before the second are accepted the error names both fields, the earlier
  first.  If the loop over the fields ends with at least one retained property and none
  of them carries the \<open>id\<close> annotation, the candidates are the retained properties whose
  name lowers to \<open>id\<close> and whose host type is \<open>uint64\<close>: with no candidate the build
  fails with the missing-id error; with exactly one, at position \<open>i\<close>, the build succeeds,
  that property is the identity property and has gained the flag \<open>ID\<close>; with two or
  more the build fails (with the error that asks for an \<open>id\<close> tag).
\<close>

theorem identity_property:
  "(\<forall>p1 p2. fieldProperty U (currentEntityName b) f1 = Inr (Some p1) \<and>
            Annotations p1 ''id'' \<noteq> None \<and>
            fieldProperty U (currentEntityName b) f2 = Inr (Some p2) \<and>
            Annotations p2 ''id'' \<noteq> None \<longrightarrow>
      isl (createEntityFromAst U b (Node (StructType (pre @ f1 # mid @ f2 # post)) cs)) \<and>
      (\<forall>st. fieldsLoop U (newEntity (currentEntityName b), {}) (pre @ f1 # mid) = Inr st \<longrightarrow>
         createEntityFromAst U b (Node (StructType (pre @ f1 # mid @ f2 # post)) cs)
           = Inl (MultipleIdProperties (currentEntityName b) (Names f1 ! 0) (Names f2 ! 0)))) \<and>
   (\<forall>e names. fieldsLoop U (newEntity (currentEntityName b), {}) fs = Inr (e, names) \<and>
            Properties e \<noteq> [] \<and> (\<forall>p\<in>set (Properties e). Annotations p ''id'' = None) \<longrightarrow>
      (let cands = filter (\<lambda>i. ToLower U (Name (Properties e ! i)) = ''id'' \<and>
                              GoType (Properties e ! i) = ''uint64'')
                     [0..<length (Properties e)]
       in (cands = [] \<longrightarrow>
             createEntityFromAst U b (Node (StructType fs) cs)
               = Inl (IdFieldMissing (currentEntityName b))) \<and>
          (\<forall>i. cands = [i] \<longrightarrow>
             createEntityFromAst U b (Node (StructType fs) cs)
               = Inr (b\<lparr>Entities := Entities b @
                       [e\<lparr>IdProperty := Some i,
                          Properties :=
                            (Properties e)[i := addObFlag (Properties e ! i) ''ID'']\<rparr>]\<rparr>)) \<and>
          (2 \<le> length cands \<longrightarrow>
             createEntityFromAst U b (Node (StructType fs) cs)
               = Inl (IdFieldMissingAnnotate (currentEntityName b)))))"
proof (intro conjI allI impI)
  fix p1 p2
  assume a: "fieldProperty U (currentEntityName b) f1 = Inr (Some p1) \<and>
            Annotations p1 ''id'' \<noteq> None \<and>
            fieldProperty U (currentEntityName b) f2 = Inr (Some p2) \<and>
            Annotations p2 ''id'' \<noteq> None"
  let ?init = "(newEntity (currentEntityName b), {}) :: Entity \<times> string set"
  from a have f1: "fieldProperty U (EntityName (fst ?init)) f1 = Inr (Some p1)"
    and id1: "Annotations p1 ''id'' \<noteq> None"
    and f2: "fieldProperty U (EntityName (fst ?init)) f2 = Inr (Some p2)"
    and id2: "Annotations p2 ''id'' \<noteq> None"
    by simp_all
  show "isl (createEntityFromAst U b (Node (StructType (pre @ f1 # mid @ f2 # post)) cs))"
    by (intro createEntityFromAst_loop_isl fieldsLoop_two_ids_fail [OF f1 id1 f2 id2])
  fix st
  assume loop: "fieldsLoop U ?init (pre @ f1 # mid) = Inr st"
  have names: "Name p1 = Names f1 ! 0" "Name p2 = Names f2 ! 0"
    using fieldProperty_Some(1) [OF f1] fieldProperty_Some(1) [OF f2] by simp_all
  have "fieldsLoop U ?init (pre @ f1 # mid @ f2 # post) =
     Inl (MultipleIdProperties (EntityName (fst ?init)) (Name p1) (Name p2))"
    by (rule fieldsLoop_two_ids [OF f1 id1 f2 id2 loop])
  then show "createEntityFromAst U b (Node (StructType (pre @ f1 # mid @ f2 # post)) cs)
           = Inl (MultipleIdProperties (currentEntityName b) (Names f1 ! 0) (Names f2 ! 0))"
    by (simp add: createEntityFromAst_loop_fails names)
next
  fix e names
  assume a: "fieldsLoop U (newEntity (currentEntityName b), {}) fs = Inr (e, names) \<and>
            Properties e \<noteq> [] \<and> (\<forall>p\<in>set (Properties e). Annotations p ''id'' = None)"
  then have loop: "fieldsLoop U (newEntity (currentEntityName b), {}) fs = Inr (e, names)"
    and ne: "Properties e \<noteq> []"
    and noid: "\<forall>p\<in>set (Properties e). Annotations p ''id'' = None"
    by simp_all
  show "(let cands = filter (\<lambda>i. ToLower U (Name (Properties e ! i)) = ''id'' \<and>
                              GoType (Properties e ! i) = ''uint64'')
                     [0..<length (Properties e)]
       in (cands = [] \<longrightarrow>
             createEntityFromAst U b (Node (StructType fs) cs)
               = Inl (IdFieldMissing (currentEntityName b))) \<and>
          (\<forall>i. cands = [i] \<longrightarrow>
             createEntityFromAst U b (Node (StructType fs) cs)
               = Inr (b\<lparr>Entities := Entities b @
                       [e\<lparr>IdProperty := Some i,
                          Properties :=
                            (Properties e)[i := addObFlag (Properties e ! i) ''ID'']\<rparr>]\<rparr>)) \<and>
          (2 \<le> length cands \<longrightarrow>
             createEntityFromAst U b (Node (StructType fs) cs)
               = Inl (IdFieldMissingAnnotate (currentEntityName b))))"
    unfolding Let_def inferred_identity [OF loop ne noid, of cs]
    by (auto split: list.splits)
qed

theorem identity_property_witness:
  "createEntityFromAst id (newBinding\<lparr>currentEntityName := ''User''\<rparr>)
     (Node (StructType
        [\<lparr>Names = [''Id''], Tag = Some ''`id`'', Type = ''uint64''\<rparr>,
         \<lparr>Names = [''Name''], Tag = None, Type = ''string''\<rparr>,
         \<lparr>Names = [''Key''], Tag = Some ''`id`'', Type = ''uint64''\<rparr>]) [])
     = Inl (MultipleIdProperties ''User'' ''Id'' ''Key'') \<and>
   createEntityFromAst id (newBinding\<lparr>currentEntityName := ''User''\<rparr>)
     (Node (StructType [\<lparr>Names = [''Id''], Tag = None, Type = ''uint64''\<rparr>]) [])
     = Inr (newBinding\<lparr>currentEntityName := ''User'',
              Entities := [newEntity ''User''\<lparr>IdProperty := Some 0,
                Properties := [newProperty ''Id''\<lparr>ObName := ''Id'', GoType := ''uint64'',
                  ObType := ''Long'', FbType := ''Uint64'', ObFlags := [''ID'']\<rparr>]\<rparr>]\<rparr>) \<and>
   createEntityFromAst id (newBinding\<lparr>currentEntityName := ''User''\<rparr>)
     (Node (StructType [\<lparr>Names = [''Name''], Tag = None, Type = ''string''\<rparr>]) [])
     = Inl (IdFieldMissing ''User'') \<and>
   createEntityFromAst id (newBinding\<lparr>currentEntityName := ''User''\<rparr>)
     (Node (StructType
        [\<lparr>Names = [''Id''], Tag = Some ''`nameindb:\"a\"`'', Type = ''uint64''\<rparr>,
         \<lparr>Names = [''ID''], Tag = None, Type = ''uint64''\<rparr>]) [])
     = Inl (IdFieldMissingAnnotate ''User'')"
proof -
  let ?b = "newBinding\<lparr>currentEntityName := ''User''\<rparr>"
  let ?Id = "newProperty ''Id''\<lparr>ObName := ''Id'', GoType := ''uint64'', ObType := ''Long'',
               FbType := ''Uint64''\<rparr>"
  have two: "createEntityFromAst id ?b
     (Node (StructType
        [\<lparr>Names = [''Id''], Tag = Some ''`id`'', Type = ''uint64''\<rparr>,
         \<lparr>Names = [''Name''], Tag = None, Type = ''string''\<rparr>,
         \<lparr>Names = [''Key''], Tag = Some ''`id`'', Type = ''uint64''\<rparr>]) [])
     = Inl (MultipleIdProperties ''User'' ''Id'' ''Key'')"
    using identity_property
      [where U = id and b = ?b
         and ?f1.0 = "\<lparr>Names = [''Id''], Tag = Some ''`id`'', Type = ''uint64''\<rparr>"
         and ?f2.0 = "\<lparr>Names = [''Key''], Tag = Some ''`id`'', Type = ''uint64''\<rparr>"
         and pre = "[]" and mid = "[\<lparr>Names = [''Name''], Tag = None, Type = ''string''\<rparr>]"
         and post = "[]" and cs = "[]",
       THEN conjunct1, rule_format,
       of "newProperty ''Id''\<lparr>Annotations := [''id'' \<mapsto> \<lparr>Value = []\<rparr>],
             GoType := ''uint64'', ObType := ''Long'', FbType := ''Uint64'', ObFlags := [''ID'']\<rparr>"
          "newProperty ''Key''\<lparr>Annotations := [''id'' \<mapsto> \<lparr>Value = []\<rparr>],
             GoType := ''uint64'', ObType := ''Long'', FbType := ''Uint64'', ObFlags := [''ID'']\<rparr>"]
    by (simp add: build_defs ToLower_names)
  have one: "createEntityFromAst id ?b
     (Node (StructType [\<lparr>Names = [''Id''], Tag = None, Type = ''uint64''\<rparr>]) [])
     = Inr (?b\<lparr>Entities := [newEntity ''User''\<lparr>IdProperty := Some 0,
                Properties := [?Id\<lparr>ObFlags := [''ID'']\<rparr>]\<rparr>]\<rparr>)"
    using identity_property
      [where U = id and b = ?b
         and fs = "[\<lparr>Names = [''Id''], Tag = None, Type = ''uint64''\<rparr>]" and cs = "[]",
       THEN conjunct2, rule_format,
       of "newEntity ''User''\<lparr>Properties := [?Id]\<rparr>" "{''id''}"]
    by (simp add: build_defs ToLower_names)
  have zero: "createEntityFromAst id ?b
     (Node (StructType [\<lparr>Names = [''Name''], Tag = None, Type = ''string''\<rparr>]) [])
     = Inl (IdFieldMissing ''User'')"
    using identity_property
      [where U = id and b = ?b
         and fs = "[\<lparr>Names = [''Name''], Tag = None, Type = ''string''\<rparr>]" and cs = "[]",
       THEN conjunct2, rule_format,
       of "newEntity ''User''\<lparr>Properties := [newProperty ''Name''\<lparr>ObName := ''Name'',
             GoType := ''string'', ObType := ''String'', FbType := ''UOffsetT''\<rparr>]\<rparr>" "{''name''}"]
    by (simp add: build_defs ToLower_names)
  have many: "createEntityFromAst id ?b
     (Node (StructType
        [\<lparr>Names = [''Id''], Tag = Some ''`nameindb:\"a\"`'', Type = ''uint64''\<rparr>,
         \<lparr>Names = [''ID''], Tag = None, Type = ''uint64''\<rparr>]) [])
     = Inl (IdFieldMissingAnnotate ''User'')"
    using identity_property
      [where U = id and b = ?b
         and fs = "[\<lparr>Names = [''Id''], Tag = Some ''`nameindb:\"a\"`'', Type = ''uint64''\<rparr>,
                    \<lparr>Names = [''ID''], Tag = None, Type = ''uint64''\<rparr>]" and cs = "[]",
       THEN conjunct2, rule_format,
       of "newEntity ''User''\<lparr>Properties :=
             [newProperty ''Id''\<lparr>Annotations := [''nameindb'' \<mapsto> \<lparr>Value = ''a''\<rparr>],
                ObName := ''a'', GoType := ''uint64'', ObType := ''Long'', FbType := ''Uint64''\<rparr>,
              newProperty ''ID''\<lparr>ObName := ''ID'', GoType := ''uint64'', ObType := ''Long'',
                FbType := ''Uint64''\<rparr>]\<rparr>" "{''id'', ''a''}"]
    by (simp add: build_defs ToLower_names TrimSpace_evaluated)
  from two one zero many show ?thesis by (simp add: newBinding_def)
qed

subsection \<open>An empty \<open>nameindb\<close> value\<close>

lemma find_space_rune:
  "w \<in> set spaceRunes \<Longrightarrow> find (HasPrefix (w @ r)) spaceRunes = Some w"
  unfolding spaceRunes_def
  by (simp only: list.set insert_iff empty_iff, elim disjE; simp add: HasPrefix_def)

lemma trimLeft_Nil: "trimLeft spaceRunes [] = []"
  by (subst trimLeft.simps) (simp add: spaceRunes_def HasPrefix_def)

lemma trimLeft_rev_Nil: "trimLeft (map rev spaceRunes) [] = []"
  by (subst trimLeft.simps) (simp add: spaceRunes_def HasPrefix_def)

lemma trimLeft_space_rune:
  assumes "w \<in> set spaceRunes"
  shows "trimLeft spaceRunes (w @ r) = trimLeft spaceRunes r"
proof -
  from assms have "w \<noteq> []" unfolding spaceRunes_def by auto
  then show ?thesis
    by (subst trimLeft.simps) (simp add: find_space_rune [OF assms])
qed

lemma TrimSpace_spaces:
  assumes "set rs \<subseteq> set spaceRunes"
  shows "TrimSpace (concat rs) = []"
proof -
  from assms have "trimLeft spaceRunes (concat rs) = []"
    by (induction rs) (simp_all add: trimLeft_Nil trimLeft_space_rune)
  then show ?thesis by (simp add: TrimSpace_def trimLeft_rev_Nil)
qed

lemma setType_Annotations: "setType p t = Inr p' \<Longrightarrow> Annotations p' = Annotations p"
  by (cases "baseTypes t"; cases "Annotations p ''link''")
     (auto simp: setType_def Let_def split: if_splits)

lemma fieldProperty_Annotations:
  assumes "fieldProperty U en f = Inr (Some p)" "Tag f = Some t"
  shows "\<exists>p1. setAnnotations U (newProperty (Names f ! 0)) t = Inr p1 \<and>
               Annotations p = Annotations p1"
proof -
  from assms obtain p1 p2 where
    1: "setAnnotations U (newProperty (Names f ! 0)) t = Inr p1"
    and 2: "setType p1 (Type f) = Inr p2" and 3: "setObFlags U p2 = Inr p"
    by (auto simp: fieldProperty_def Let_def split: if_splits sum.splits)
  from setType_Annotations [OF 2] setObFlags_unchanged [OF 3] 1 show ?thesis by simp
qed

lemma addProperty_empty_nameindb:
  assumes "Annotations p ''nameindb'' = Some a" "Value a = []"
    and "Annotations p ''id'' = None \<or> IdProperty (fst st) = None"
  shows "addProperty U st p = Inl (PropertyError EmptyNameInDb (Name p) (EntityName (fst st)))"
  using assms by (cases st) (auto simp: addProperty_def)

text \<open>
  C10 as stated fails: for the value of one space, \<open>nameindb:" "\<close>, the split at
  spaces of line 252 cuts the token inside the quotes; the first piece is
  \<open>nameindb:"\<close>, and the parser fails with the invalid-annotation-value error on the
  lone quote.  The build fails with that error, not with the empty-nameindb error.
\<close>

theorem nameindb_space_is_format_error:
  "createEntityFromAst id (newBinding\<lparr>currentEntityName := ''User''\<rparr>)
     (Node (StructType
        [\<lparr>Names = [''Name''], Tag = Some ''`nameindb:\" \"`'', Type = ''string''\<rparr>]) [])
     = Inl (PropertyError (InvalidAnnotationValue [CHR 0x22] ''nameindb'') ''Name'' ''User'')"
  by (simp add: build_defs ToLower_names)

text \<open>An entry of the mapping is never overwritten by a later piece.\<close>

lemma annotationsLoop_keeps:
  "annotationsLoop U anns tags = Inr m \<Longrightarrow> anns k = Some v \<Longrightarrow> m k = Some v"
proof (induction tags arbitrary: anns)
  case Nil
  then show ?case by simp
next
  case (Cons tag tags)
  show ?case
  proof (cases "tag = []")
    case True
    with Cons show ?thesis by simp
  next
    case False
    with Cons.prems(1) obtain n val where
      ta: "tagAnnotation tag = Inr (n, val)" and free: "anns (ToLower U n) = None"
      and rest: "annotationsLoop U (anns(ToLower U n \<mapsto> val)) tags = Inr m"
      by (auto simp: Let_def split: sum.splits if_splits)
    from free Cons.prems(2) have "k \<noteq> ToLower U n" by auto
    with Cons.prems(2) have "(anns(ToLower U n \<mapsto> val)) k = Some v" by simp
    from Cons.IH [OF rest this] show ?thesis .
  qed
qed

lemma annotationsLoop_entry:
  "annotationsLoop U anns tags = Inr m \<Longrightarrow> tag \<in> set tags \<Longrightarrow> tag \<noteq> [] \<Longrightarrow>
   tagAnnotation tag = Inr (n, val) \<Longrightarrow> m (ToLower U n) = Some val"
proof (induction tags arbitrary: anns)
  case Nil
  then show ?case by simp
next
  case (Cons x tags)
  show ?case
  proof (cases "x = []")
    case True
    with Cons.prems have "annotationsLoop U anns tags = Inr m" "tag \<in> set tags" by auto
    from Cons.IH [OF this Cons.prems(3,4)] show ?thesis .
  next
    case False
    with Cons.prems(1) obtain n' val' where
      ta: "tagAnnotation x = Inr (n', val')"
      and rest: "annotationsLoop U (anns(ToLower U n' \<mapsto> val')) tags = Inr m"
      by (auto simp: Let_def split: sum.splits if_splits)
    show ?thesis
    proof (cases "tag = x")
      case True
      with ta Cons.prems(4) have "n' = n" "val' = val" by simp_all
      with annotationsLoop_keeps [OF rest, of "ToLower U n" val] show ?thesis by simp
    next
      case False
      with Cons.prems(2) have "tag \<in> set tags" by simp
      from Cons.IH [OF rest this Cons.prems(3,4)] show ?thesis .
    qed
  qed
qed

text \<open>
  C10, amended.  Take a retained field (its tag parses, it is not transient, its type
  resolves and its flags derive) whose tag, cut at the spaces of its body, has a piece
  of a name without colon that lowers to \<open>nameindb\<close>, a colon and, in double quotes, a
  value made only of white-space runes (none of them the space character, since the
  piece holds no space; the empty value included).  Then the parser trims the value to
  the empty string, and when the fields before this one are accepted and the field is
  not a second \<open>id\<close> field, the entity build fails with the empty-nameindb error on
  that property, as it does for \<open>nameindb:""\<close>.
\<close>

theorem whitespace_nameindb:
  assumes fp: "fieldProperty U (currentEntityName b) f = Inr (Some p)"
    and tag: "Tag f = Some t"
    and piece: "tokenText (k, Some (concat rs)) \<in> set (Split (tagBody t) (CHR '' ''))"
    and k: "CHR '':'' \<notin> set k" "ToLower U k = ''nameindb''"
    and ws: "set rs \<subseteq> set spaceRunes"
    and loop: "fieldsLoop U (newEntity (currentEntityName b), {}) pre = Inr st"
    and noid: "Annotations p ''id'' = None \<or> IdProperty (fst st) = None"
  shows "Annotations p ''nameindb'' = Some \<lparr>Value = []\<rparr> \<and>
         createEntityFromAst U b (Node (StructType (pre @ f # post)) cs)
           = Inl (PropertyError EmptyNameInDb (Names f ! 0) (currentEntityName b))"
proof -
  from fieldProperty_Annotations [OF fp tag] obtain p1 where
    p1: "setAnnotations U (newProperty (Names f ! 0)) t = Inr p1"
    and ann: "Annotations p = Annotations p1"
    by blast
  have ne: "tagBody t \<noteq> []"
  proof
    assume "tagBody t = []"
    with piece show False by (simp del: tokenText.simps) simp
  qed
  with p1 obtain anns where
    lp: "annotationsLoop U Map.empty (Split (tagBody t) (CHR '' '')) = Inr anns"
    and p1a: "p1 = (newProperty (Names f ! 0))\<lparr>Annotations := anns\<rparr>"
    by (simp only: setAnnotations_body if_False split: sum.splits) auto
  have "tagAnnotation (tokenText (k, Some (concat rs)))
          = Inr (k, \<lparr>Value = TrimSpace (concat rs)\<rparr>)"
    using k(1) by (rule tagAnnotation_valued)
  from annotationsLoop_entry [OF lp piece _ this]
  have "anns (ToLower U k) = Some \<lparr>Value = TrimSpace (concat rs)\<rparr>" by simp
  then have a: "Annotations p ''nameindb'' = Some \<lparr>Value = []\<rparr>"
    using ann p1a k(2) TrimSpace_spaces [OF ws] by simp
  let ?init = "(newEntity (currentEntityName b), {}) :: Entity \<times> string set"
  have "addProperty U st p = Inl (PropertyError EmptyNameInDb (Name p) (EntityName (fst st)))"
    by (rule addProperty_empty_nameindb [OF a _ noid]) simp
  moreover have "EntityName (fst st) = currentEntityName b"
    using fieldsLoop_EntityName [OF loop] by simp
  moreover have "Name p = Names f ! 0" using fieldProperty_Some(1) [OF fp] .
  ultimately have "fieldsLoop U ?init (pre @ f # post)
      = Inl (PropertyError EmptyNameInDb (Names f ! 0) (currentEntityName b))"
    using fieldsLoop_step [OF loop, of f p post] fp by simp
  then have "createEntityFromAst U b (Node (StructType (pre @ f # post)) cs)
           = Inl (PropertyError EmptyNameInDb (Names f ! 0) (currentEntityName b))"
    by (rule createEntityFromAst_loop_fails)
  with a show ?thesis by simp
qed

theorem whitespace_nameindb_witness:
  "createEntityFromAst id (newBinding\<lparr>currentEntityName := ''User''\<rparr>)
     (Node (StructType
        [\<lparr>Names = [''Id''], Tag = None, Type = ''uint64''\<rparr>,
         \<lparr>Names = [''Name''],
            Tag = Some (''`index  nameInDb:\"'' @ [CHR 0x09, CHR 0x0A] @ ''\" `''),
            Type = ''string''\<rparr>]) [])
     = Inl (PropertyError EmptyNameInDb ''Name'' ''User'') \<and>
   createEntityFromAst id (newBinding\<lparr>currentEntityName := ''User''\<rparr>)
     (Node (StructType
        [\<lparr>Names = [''Id''], Tag = None, Type = ''uint64''\<rparr>,
         \<lparr>Names = [''Name''], Tag = Some ''nameindb:\"\"'', Type = ''string''\<rparr>]) [])
     = Inl (PropertyError EmptyNameInDb ''Name'' ''User'')"
proof -
  have trim: "TrimSpace [CHR 0x09, CHR 0x0A] = []" by code_simp
  have tabs: "createEntityFromAst id (newBinding\<lparr>currentEntityName := ''User''\<rparr>)
     (Node (StructType
        [\<lparr>Names = [''Id''], Tag = None, Type = ''uint64''\<rparr>,
         \<lparr>Names = [''Name''],
            Tag = Some (''`index  nameInDb:\"'' @ [CHR 0x09, CHR 0x0A] @ ''\" `''),
            Type = ''string''\<rparr>]) [])
     = Inl (PropertyError EmptyNameInDb ''Name'' ''User'')"
    using whitespace_nameindb
      [where U = id and b = "newBinding\<lparr>currentEntityName := ''User''\<rparr>"
         and rs = "[CHR 0x09] # [CHR 0x0A] # []" and k = "''nameInDb''"
         and t = "''`index  nameInDb:\"'' @ [CHR 0x09, CHR 0x0A] @ ''\" `''"
         and f = "\<lparr>Names = [''Name''],
                    Tag = Some (''`index  nameInDb:\"'' @ [CHR 0x09, CHR 0x0A] @ ''\" `''),
                    Type = ''string''\<rparr>"
         and p = "newProperty ''Name''\<lparr>Annotations :=
                      [''index'' \<mapsto> \<lparr>Value = []\<rparr>, ''nameindb'' \<mapsto> \<lparr>Value = []\<rparr>],
                    GoType := ''string'', ObType := ''String'', FbType := ''UOffsetT'',
                    ObFlags := [''INDEXED''], Index := Some \<lparr>IndexId = 0, IndexUid = 0\<rparr>\<rparr>"
         and pre = "[\<lparr>Names = [''Id''], Tag = None, Type = ''uint64''\<rparr>]"
         and st = "(newEntity ''User''\<lparr>Properties := [newProperty ''Id''\<lparr>ObName := ''Id'',
                      GoType := ''uint64'', ObType := ''Long'', FbType := ''Uint64''\<rparr>]\<rparr>,
                    {''id''})"
         and post = "[]" and cs = "[]"]
    by (simp add: build_defs tagBody_def ToLower_names ToLower_evaluated trim spaceRunes_def)
  have empty: "createEntityFromAst id (newBinding\<lparr>currentEntityName := ''User''\<rparr>)
     (Node (StructType
        [\<lparr>Names = [''Id''], Tag = None, Type = ''uint64''\<rparr>,
         \<lparr>Names = [''Name''], Tag = Some ''nameindb:\"\"'', Type = ''string''\<rparr>]) [])
     = Inl (PropertyError EmptyNameInDb ''Name'' ''User'')"
    using whitespace_nameindb
      [where U = id and b = "newBinding\<lparr>currentEntityName := ''User''\<rparr>"
         and rs = "[]" and k = "''nameindb''" and t = "''nameindb:\"\"''"
         and f = "\<lparr>Names = [''Name''], Tag = Some ''nameindb:\"\"'', Type = ''string''\<rparr>"
         and p = "newProperty ''Name''\<lparr>Annotations := [''nameindb'' \<mapsto> \<lparr>Value = []\<rparr>],
                    GoType := ''string'', ObType := ''String'', FbType := ''UOffsetT''\<rparr>"
         and pre = "[\<lparr>Names = [''Id''], Tag = None, Type = ''uint64''\<rparr>]"
         and st = "(newEntity ''User''\<lparr>Properties := [newProperty ''Id''\<lparr>ObName := ''Id'',
                      GoType := ''uint64'', ObType := ''Long'', FbType := ''Uint64''\<rparr>]\<rparr>,
                    {''id''})"
         and post = "[]" and cs = "[]"]
    by (simp add: build_defs tagBody_def ToLower_names TrimSpace_evaluated)
  from tabs empty show ?thesis by simp
qed

section \<open>The sticky error of the tree walk\<close>

lemma entityLoader_sticky: "err b \<noteq> None \<Longrightarrow> entityLoader U b n = (b, False)"
  by (simp add: entityLoader_def)

lemma walk_sticky: "err b \<noteq> None \<Longrightarrow> walk U n b = b"
  by (cases n) (simp add: entityLoader_sticky)

lemma walks_sticky: "err b \<noteq> None \<Longrightarrow> fold (walk U) ns b = b"
  by (induction ns) (simp_all add: walk_sticky)

lemma createEntityFromAst_appends:
  "createEntityFromAst U b n = Inr b' \<Longrightarrow> \<exists>e. b' = b\<lparr>Entities := Entities b @ [e]\<rparr>"
  by (auto simp: createEntityFromAst_def Let_def split: sum.splits if_splits prod.splits)

lemma entityLoader_Entities:
  assumes "entityLoader U b n = (b', d)"
  shows "\<exists>es. Entities b' = Entities b @ es \<and> (err b = None \<and> err b' \<noteq> None \<longrightarrow> es = [])"
proof (cases "err b")
  case (Some e)
  with assms show ?thesis by (simp add: entityLoader_sticky)
next
  case None
  obtain k cs where n: "n = Node k cs" by (cases n)
  show ?thesis
  proof (cases k)
    case (StructType fs)
    show ?thesis
    proof (cases "createEntityFromAst U b n")
      case (Inl e)
      with assms None n StructType show ?thesis
        by (auto simp: entityLoader_def split: if_splits)
    next
      case (Inr b1)
      from createEntityFromAst_appends [OF Inr] obtain e where "b1 = b\<lparr>Entities := Entities b @ [e]\<rparr>" ..
      with Inr assms None n StructType show ?thesis
        by (auto simp: entityLoader_def split: if_splits)
    qed
  qed (use assms None n in \<open>auto simp: entityLoader_def\<close>)
qed

lemma walks_Entities:
  assumes "\<And>n b. n \<in> set ns \<Longrightarrow> \<exists>es. Entities (walk U n b) = Entities b @ es"
  shows "\<exists>es. Entities (fold (walk U) ns b) = Entities b @ es"
  using assms
proof (induction ns arbitrary: b)
  case Nil
  then show ?case by simp
next
  case (Cons n ns)
  from Cons.prems [of n b] obtain es1 where 1: "Entities (walk U n b) = Entities b @ es1" by auto
  from Cons.IH [of "walk U n b"] Cons.prems obtain es2 where
    "Entities (fold (walk U) ns (walk U n b)) = Entities (walk U n b) @ es2" by auto
  with 1 show ?case by simp
qed

lemma walk_Entities: "\<exists>es. Entities (walk U n b) = Entities b @ es"
proof (induction U n b rule: walk.induct)
  case (1 U k children binding)
  obtain b' d where el: "entityLoader U binding (Node k children) = (b', d)"
    by (cases "entityLoader U binding (Node k children)")
  from entityLoader_Entities [OF el] obtain es1 where 1: "Entities b' = Entities binding @ es1"
    by auto
  show ?case
  proof (cases d)
    case False
    with el 1 show ?thesis by simp
  next
    case True
    have "\<exists>es. Entities (fold (walk U) children b') = Entities b' @ es"
    proof (rule walks_Entities)
      fix n b assume "n \<in> set children"
      with "1.IH" [OF el [symmetric] _ _] True
      show "\<exists>es. Entities (walk U n b) = Entities b @ es" by simp
    qed
    with el 1 True show ?thesis by auto
  qed
qed

text \<open>
  C8.  Once the binding's \<open>err\<close> is set, a call of the callback changes nothing and
  returns \<open>false\<close> (no descent), so the walk of any node, and of any list of nodes,
  leaves the binding as it is, and \<open>createFromAst\<close> on such a binding changes only the
  package name and returns that error.  A callback that records an error, from a
  binding without one, leaves the entity list as it was, and the rest of the walk (the
  node's children, any further nodes) leaves the binding as that callback left it.  A
  walk only ever appends to the entity list, and \<open>createFromAst\<close> returns the \<open>err\<close>
  of the binding it leaves: the first error recorded is the error returned, and the
  entities appended before it are still in the list.
\<close>

theorem sticky_error:
  "(err b \<noteq> None \<longrightarrow>
      entityLoader U b n = (b, False) \<and> walk U n b = b \<and> fold (walk U) ns b = b \<and>
      fst (createFromAst U b f) = b\<lparr>Package := Package (fst (createFromAst U b f))\<rparr> \<and>
      snd (createFromAst U b f) = err b) \<and>
   (\<forall>b' d. err b = None \<and> entityLoader U b (Node k cs) = (b', d) \<and> err b' \<noteq> None \<longrightarrow>
      Entities b' = Entities b \<and> walk U (Node k cs) b = b' \<and> fold (walk U) ns b' = b') \<and>
   (err (fold (walk U) ns1 b) \<noteq> None \<longrightarrow>
      fold (walk U) (ns1 @ ns2) b = fold (walk U) ns1 b) \<and>
   (\<exists>es. Entities (walk U n b) = Entities b @ es) \<and>
   snd (createFromAst U b f) = err (fst (createFromAst U b f))"
proof (intro conjI allI impI)
  assume e: "err b \<noteq> None"
  show "entityLoader U b n = (b, False)" using e by (rule entityLoader_sticky)
  show "walk U n b = b" using e by (rule walk_sticky)
  show "fold (walk U) ns b = b" using e by (rule walks_sticky)
  have "walk U (astFile f) (b\<lparr>Package := x\<rparr>) = b\<lparr>Package := x\<rparr>" for x
    using e by (intro walk_sticky) simp
  then show "fst (createFromAst U b f) = b\<lparr>Package := Package (fst (createFromAst U b f))\<rparr>"
    and "snd (createFromAst U b f) = err b"
    by (simp_all add: createFromAst_def Let_def)
next
  fix b' d
  assume a: "err b = None \<and> entityLoader U b (Node k cs) = (b', d) \<and> err b' \<noteq> None"
  then have el: "entityLoader U b (Node k cs) = (b', d)" and e: "err b' \<noteq> None" by simp_all
  from entityLoader_Entities [OF el] a show "Entities b' = Entities b" by auto
  show "walk U (Node k cs) b = b'" using el e by (simp add: walks_sticky)
  show "fold (walk U) ns b' = b'" using e by (rule walks_sticky)
next
  assume "err (fold (walk U) ns1 b) \<noteq> None"
  then show "fold (walk U) (ns1 @ ns2) b = fold (walk U) ns1 b"
    by (simp add: walks_sticky)
next
  show "\<exists>es. Entities (walk U n b) = Entities b @ es" by (rule walk_Entities)
  show "snd (createFromAst U b f) = err (fst (createFromAst U b f))"
    by (simp add: createFromAst_def Let_def)
qed

theorem sticky_error_witness:
  "createFromAst id newBinding
     \<lparr>astFile = Node (File ''model'')
        [Node GenDecl [Node (TypeSpec ''A'')
           [Node (StructType [\<lparr>Names = [''Id''], Tag = None, Type = ''uint64''\<rparr>])
              [Node OtherNode []]]],
         Node GenDecl [Node (TypeSpec ''B'')
           [Node (StructType [\<lparr>Names = [''Id''], Tag = None, Type = ''text''\<rparr>]) []]],
         Node GenDecl [Node (TypeSpec ''C'')
           [Node (StructType [\<lparr>Names = [''Name''], Tag = None, Type = ''string''\<rparr>]) []]]]\<rparr>
     = (\<lparr>Package = ''model'',
         Entities = [newEntity ''A''\<lparr>IdProperty := Some 0,
           Properties := [newProperty ''Id''\<lparr>ObName := ''Id'', GoType := ''uint64'',
             ObType := ''Long'', FbType := ''Uint64'', ObFlags := [''ID'']\<rparr>]\<rparr>],
         currentEntityName = [],
         err = Some (PropertyError (UnknownType ''text'') ''Id'' ''B'')\<rparr>,
        Some (PropertyError (UnknownType ''text'') ''Id'' ''B'')) \<and>
   walk id
     (Node GenDecl [Node (TypeSpec ''C'')
        [Node (StructType [\<lparr>Names = [''Name''], Tag = None, Type = ''string''\<rparr>]) []]])
     \<lparr>Package = ''model'',
        Entities = [newEntity ''A''\<lparr>IdProperty := Some 0,
          Properties := [newProperty ''Id''\<lparr>ObName := ''Id'', GoType := ''uint64'',
            ObType := ''Long'', FbType := ''Uint64'', ObFlags := [''ID'']\<rparr>]\<rparr>],
        currentEntityName = [],
        err = Some (PropertyError (UnknownType ''text'') ''Id'' ''B'')\<rparr>
     = \<lparr>Package = ''model'',
        Entities = [newEntity ''A''\<lparr>IdProperty := Some 0,
          Properties := [newProperty ''Id''\<lparr>ObName := ''Id'', GoType := ''uint64'',
            ObType := ''Long'', FbType := ''Uint64'', ObFlags := [''ID'']\<rparr>]\<rparr>],
        currentEntityName = [],
        err = Some (PropertyError (UnknownType ''text'') ''Id'' ''B'')\<rparr> \<and>
   walk id
     (Node (StructType [\<lparr>Names = [''Id''], Tag = None, Type = ''text''\<rparr>])
        [Node (TypeSpec ''Inner'') []])
     \<lparr>Package = ''model'', Entities = [], currentEntityName = ''B'', err = None\<rparr>
     = \<lparr>Package = ''model'', Entities = [], currentEntityName = [],
        err = Some (PropertyError (UnknownType ''text'') ''Id'' ''B'')\<rparr>"
  using sticky_error
    [where U = id
       and b = "\<lparr>Package = ''model'', Entities = [], currentEntityName = ''B'', err = None\<rparr>"
       and k = "StructType [\<lparr>Names = [''Id''], Tag = None, Type = ''text''\<rparr>]"
       and cs = "[Node (TypeSpec ''Inner'') []]",
     THEN conjunct2, THEN conjunct1, rule_format,
     of "\<lparr>Package = ''model'', Entities = [], currentEntityName = [],
          err = Some (PropertyError (UnknownType ''text'') ''Id'' ''B'')\<rparr>" True]
  sticky_error
    [where U = id
       and b = "\<lparr>Package = ''model'',
          Entities = [newEntity ''A''\<lparr>IdProperty := Some 0,
            Properties := [newProperty ''Id''\<lparr>ObName := ''Id'', GoType := ''uint64'',
              ObType := ''Long'', FbType := ''Uint64'', ObFlags := [''ID'']\<rparr>]\<rparr>],
          currentEntityName = [],
          err = Some (PropertyError (UnknownType ''text'') ''Id'' ''B'')\<rparr>"
       and n = "Node GenDecl [Node (TypeSpec ''C'')
          [Node (StructType [\<lparr>Names = [''Name''], Tag = None, Type = ''string''\<rparr>]) []]]"]
  by (simp add: createFromAst_def entityLoader_def build_defs ToLower_names)

end
